theory Spec2Isabelle
  imports
    Complex_Main
    "HOL-Library.AList"
    "HOL-Library.Char_ord"
    "HOL-Library.List_Lexorder"
begin

section \<open>Parsed documents\<close>

text \<open>
  A resource body is what \<^verbatim>\<open>yaml.safe_load\<close> returns: null, booleans, integers, floats,
  strings, lists and mappings. Mapping keys are strings (the bodies are Kubernetes
  manifests); a mapping is an association list in insertion order, as a Python dict is, and
  it is read through \<open>map_of\<close>, so that a key has one value.

  A finite float is the rational number it denotes, which is what Python's comparison of
  floats with floats and with integers looks at; the rationals that are no double are
  harmless extra values. Strings are ASCII text.
\<close>

datatype pyfloat = Finite rat | PosInf | NegInf | NaN

datatype yval =
    YNull
  | YBool bool
  | YInt int
  | YFloat pyfloat
  | YStr string
  | YList "yval list"
  | YDict "(string \<times> yval) list"

text \<open>\<^verbatim>\<open>d.get(k)\<close>: the value at the key, \<^verbatim>\<open>None\<close> when the key is absent.\<close>

definition dict_get :: "(string \<times> yval) list \<Rightarrow> string \<Rightarrow> yval" where
  "dict_get d k = (case map_of d k of None \<Rightarrow> YNull | Some v \<Rightarrow> v)"

lemma size_map_of:
  "map_of d k = Some v \<Longrightarrow> size v < Suc (size_list (\<lambda>x. Suc (size (snd x))) d)"
  by (induction d) (auto split: if_splits)

lemma size_dict_get [termination_simp]:
  "size (dict_get d k) < Suc (size_list (\<lambda>x. Suc (size (snd x))) d)"
  by (auto simp: dict_get_def dest: size_map_of split: option.splits)

lemma size_zip_left [termination_simp]:
  "(a, b) \<in> set (zip xs ys) \<Longrightarrow> size a < Suc (size_list size xs)"
  by (metis set_zip_leftD size_list_estimation' less_Suc_eq_le order_refl)

lemma size_zip_right [termination_simp]:
  "(a, b) \<in> set (zip xs ys) \<Longrightarrow> size b < Suc (size_list size ys)"
  by (metis set_zip_rightD size_list_estimation' less_Suc_eq_le order_refl)

subsection \<open>Python's \<open>==\<close> on parsed values\<close>

text \<open>
  Booleans are integers in Python (\<^verbatim>\<open>True == 1\<close>), integers and floats compare by value,
  and \<^verbatim>\<open>nan == nan\<close> is false. Lists are equal when they have the same length and equal
  elements; dicts when they have the same keys with equal values, whatever the key order.

  Inside a list or a dict Python compares two elements by identity first and by \<open>==\<close>
  only when they are different objects. For the values of parsed bodies that matters for
  \<^verbatim>\<open>nan\<close> alone: PyYAML returns one float object (\<^verbatim>\<open>SafeConstructor.nan_value\<close>) for every
  \<^verbatim>\<open>.nan\<close> it reads and \<^verbatim>\<open>copy.deepcopy\<close> returns a float as it is, so two \<^verbatim>\<open>nan\<close> in
  bodies are the same object and compare equal as elements, while \<^verbatim>\<open>nan == nan\<close> itself
  stays false. Any other two identical objects are equal by value as well.
\<close>

fun as_number :: "yval \<Rightarrow> pyfloat option" where
  "as_number (YBool b) = Some (Finite (if b then 1 else 0))"
| "as_number (YInt i) = Some (Finite (of_int i))"
| "as_number (YFloat f) = Some f"
| "as_number _ = None"

definition float_eq :: "pyfloat \<Rightarrow> pyfloat \<Rightarrow> bool" where
  "float_eq f g = (f \<noteq> NaN \<and> f = g)"

fun scalar_eq :: "yval \<Rightarrow> yval \<Rightarrow> bool" where
  "scalar_eq YNull YNull = True"
| "scalar_eq (YStr s) (YStr t) = (s = t)"
| "scalar_eq a b =
     (case (as_number a, as_number b) of (Some f, Some g) \<Rightarrow> float_eq f g | _ \<Rightarrow> False)"

definition both_nan :: "yval \<Rightarrow> yval \<Rightarrow> bool" where
  "both_nan x y = (x = YFloat NaN \<and> y = YFloat NaN)"

fun py_eq :: "yval \<Rightarrow> yval \<Rightarrow> bool" where
  "py_eq (YList xs) (YList ys) =
     (length xs = length ys \<and> list_all (\<lambda>(x, y). both_nan x y \<or> py_eq x y) (zip xs ys))"
| "py_eq (YDict d) (YDict e) =
     (set (map fst d) = set (map fst e) \<and>
      list_all (\<lambda>k. both_nan (dict_get d k) (dict_get e k) \<or>
                     py_eq (dict_get d k) (dict_get e k)) (map fst d))"
| "py_eq a b = scalar_eq a b"

text \<open>The comparison of two elements of a container: the same object, or equal.\<close>

definition elem_eq :: "yval \<Rightarrow> yval \<Rightarrow> bool" where
  "elem_eq x y = (both_nan x y \<or> py_eq x y)"

subsection \<open>Strings\<close>

text \<open>
  \<^verbatim>\<open>str.strip\<close>, \<^verbatim>\<open>str.rstrip\<close> and \<^verbatim>\<open>str.lower\<close> on ASCII text. The whitespace
  characters are tab, line feed, vertical tab, form feed, carriage return, the four
  separators 28 to 31 and the space.
\<close>

definition py_isspace :: "char \<Rightarrow> bool" where
  "py_isspace c = (of_char c \<in> {9::nat, 10, 11, 12, 13, 28, 29, 30, 31, 32})"

definition py_strip :: "string \<Rightarrow> string" where
  "py_strip s = rev (dropWhile py_isspace (rev (dropWhile py_isspace s)))"

definition py_rstrip :: "string \<Rightarrow> string" where
  "py_rstrip s = rev (dropWhile py_isspace (rev s))"

definition py_lower_char :: "char \<Rightarrow> char" where
  "py_lower_char c =
     (if 65 \<le> (of_char c :: nat) \<and> (of_char c :: nat) \<le> 90
      then char_of (of_char c + (32::nat)) else c)"

definition py_lower :: "string \<Rightarrow> string" where
  "py_lower s = map py_lower_char s"

text \<open>
  \<^verbatim>\<open>int(s)\<close> in base ten, \<open>None\<close> for the \<^verbatim>\<open>ValueError\<close>. On ASCII text \<^verbatim>\<open>int\<close> skips,
  at both ends, the whitespace of C only: tab, line feed, vertical tab, form feed, carriage
  return and space, and not the separators 28 to 31 that \<^verbatim>\<open>str.strip\<close> drops. A sign may
  come first, the digits may be grouped by single underscores, and a text of more than
  4300 digits (CPython's default limit; underscores, sign and whitespace are not counted)
  is refused.
\<close>

definition int_isspace :: "char \<Rightarrow> bool" where
  "int_isspace c = (of_char c \<in> {9::nat, 10, 11, 12, 13, 32})"

definition int_strip :: "string \<Rightarrow> string" where
  "int_strip s = rev (dropWhile int_isspace (rev (dropWhile int_isspace s)))"

definition max_str_digits :: nat where
  "max_str_digits = 4300"

definition is_digit :: "char \<Rightarrow> bool" where
  "is_digit c = (48 \<le> (of_char c :: nat) \<and> (of_char c :: nat) \<le> 57)"

definition digit_val :: "char \<Rightarrow> nat" where
  "digit_val c = of_char c - 48"

fun parse_digits :: "nat \<Rightarrow> string \<Rightarrow> nat option" where
  "parse_digits acc [] = Some acc"
| "parse_digits acc (c # cs) =
     (if is_digit c then parse_digits (acc * 10 + digit_val c) cs
      else if c = CHR ''_'' then
        (case cs of
           [] \<Rightarrow> None
         | d # ds \<Rightarrow> if is_digit d then parse_digits (acc * 10 + digit_val d) ds else None)
      else None)"

fun parse_unsigned :: "string \<Rightarrow> nat option" where
  "parse_unsigned [] = None"
| "parse_unsigned (c # cs) = (if is_digit c then parse_digits (digit_val c) cs else None)"

definition py_int :: "string \<Rightarrow> int option" where
  "py_int s =
     (case int_strip s of
        [] \<Rightarrow> None
      | c # cs \<Rightarrow>
          if max_str_digits < length (filter is_digit (c # cs)) then None
          else if c = CHR ''+'' then map_option int (parse_unsigned cs)
          else if c = CHR ''-'' then map_option (\<lambda>n. - int n) (parse_unsigned cs)
          else map_option int (parse_unsigned (c # cs)))"

section \<open>The semantic comparator (diff/semantic.py)\<close>

text \<open>
  \<^verbatim>\<open>float(s)\<close> rounds a decimal text to the nearest double; the comparator takes it as
  the parameter \<open>pf\<close> (\<open>None\<close> is the \<^verbatim>\<open>ValueError\<close>), and nothing below depends on what
  it returns.

  \<open>coerce_numeric\<close> returns the number itself, as \<^verbatim>\<open>_coerce_numeric\<close> does: an integer
  or a float that is no boolean, or what a string parses to, the integer parse first.
\<close>

fun coerce_numeric :: "(string \<Rightarrow> pyfloat option) \<Rightarrow> yval \<Rightarrow> yval option" where
  "coerce_numeric pf (YInt i) = Some (YInt i)"
| "coerce_numeric pf (YFloat f) = Some (YFloat f)"
| "coerce_numeric pf (YStr s) =
     (case py_int s of
        Some i \<Rightarrow> Some (YInt i)
      | None \<Rightarrow> (case pf s of Some f \<Rightarrow> Some (YFloat f) | None \<Rightarrow> None))"
| "coerce_numeric pf _ = None"

definition BOOL_MAP :: "(string \<times> bool) list" where
  "BOOL_MAP = [(''true'', True), (''false'', False), (''yes'', True), (''no'', False)]"

fun coerce_bool :: "yval \<Rightarrow> bool option" where
  "coerce_bool (YBool b) = Some b"
| "coerce_bool (YStr s) = map_of BOOL_MAP (py_lower s)"
| "coerce_bool _ = None"

text \<open>
  \<^verbatim>\<open>_deep_semantic_equal\<close> starts with four checks that do not recurse: equality, both
  null, both numeric after coercion, both boolean after coercion. \<open>coercion_checks\<close> is
  that chain; its last argument is the outcome of the rest of the function.
\<close>

definition coercion_checks ::
  "(string \<Rightarrow> pyfloat option) \<Rightarrow> yval \<Rightarrow> yval \<Rightarrow> bool \<Rightarrow> bool" where
  "coercion_checks pf a b structural =
     (if py_eq a b then True
      else if a = YNull \<and> b = YNull then True
      else if coerce_numeric pf a \<noteq> None \<and> coerce_numeric pf b \<noteq> None
        then py_eq (the (coerce_numeric pf a)) (the (coerce_numeric pf b))
      else if coerce_bool a \<noteq> None \<and> coerce_bool b \<noteq> None
        then coerce_bool a = coerce_bool b
      else structural)"

text \<open>
  The rest: two dicts are compared over the union of their keys, an absent key read as
  null; two lists position by position; anything else is unequal.
\<close>

fun deep_semantic_equal :: "(string \<Rightarrow> pyfloat option) \<Rightarrow> yval \<Rightarrow> yval \<Rightarrow> bool" where
  "deep_semantic_equal pf (YDict d) (YDict e) =
     coercion_checks pf (YDict d) (YDict e)
       (list_all (\<lambda>k. deep_semantic_equal pf (dict_get d k) (dict_get e k))
          (map fst d @ map fst e))"
| "deep_semantic_equal pf (YList xs) (YList ys) =
     coercion_checks pf (YList xs) (YList ys)
       (length xs = length ys \<and>
        list_all (\<lambda>(x, y). deep_semantic_equal pf x y) (zip xs ys))"
| "deep_semantic_equal pf a b = coercion_checks pf a b False"

definition is_semantically_equal ::
  "(string \<Rightarrow> pyfloat option) \<Rightarrow> yval \<Rightarrow> yval \<Rightarrow> bool" where
  "is_semantically_equal pf old new = deep_semantic_equal pf old new"

section \<open>Resources and pairing (parser/manifest.py)\<close>

text \<open>
  The dataclasses \<^verbatim>\<open>Resource\<close> and \<^verbatim>\<open>ResourcePair\<close>. \<^verbatim>\<open>Resource\<close> declares its four
  identity fields as \<^verbatim>\<open>str\<close>, and Python does not check that: the parser stores whatever
  value the document gives. The record therefore takes the type of the identity fields as
  a parameter. The parser builds resources whose identity fields are parsed values
  (\<open>yval resource_of\<close>); pairing, the diff engine and the risk rules read the fields as the
  strings the class declares (\<open>resource\<close>). The status of a pair is one of the four
  literals \<^verbatim>\<open>"added"\<close>, \<^verbatim>\<open>"removed"\<close>, \<^verbatim>\<open>"changed"\<close>, \<^verbatim>\<open>"unchanged"\<close>.
\<close>

record 'f resource_of =
  api_version :: 'f
  kind :: 'f
  namespace :: 'f
  name :: 'f
  body :: yval
  raw :: string

type_synonym resource = "string resource_of"

record resource_pair =
  old :: "resource option"
  new :: "resource option"
  status :: string

definition key :: "resource \<Rightarrow> string" where
  "key r = api_version r @ ''/'' @ kind r @ ''/'' @ namespace r @ ''/'' @ name r"

text \<open>
  \<^verbatim>\<open>{r.key: r for r in rs}\<close>: a dict keeps a key where it was first inserted and takes the
  value inserted last, which is what \<open>AList.update\<close> does on an association list.
  \<^verbatim>\<open>dict.fromkeys(ks)\<close> is the same insertion with no value.
\<close>

definition resource_map :: "resource list \<Rightarrow> (string \<times> resource) list" where
  "resource_map rs = foldl (\<lambda>m r. AList.update (key r) r m) [] rs"

definition dict_fromkeys :: "string list \<Rightarrow> (string \<times> unit) list" where
  "dict_fromkeys ks = foldl (\<lambda>m k. AList.update k () m) [] ks"

definition pair_status :: "resource option \<Rightarrow> resource option \<Rightarrow> string" where
  "pair_status old_res new_res =
     (case old_res of
        None \<Rightarrow> ''added''
      | Some o_res \<Rightarrow>
          (case new_res of
             None \<Rightarrow> ''removed''
           | Some n_res \<Rightarrow> if py_eq (body o_res) (body n_res) then ''unchanged'' else ''changed''))"

definition pair_resources :: "resource list \<Rightarrow> resource list \<Rightarrow> resource_pair list" where
  "pair_resources old_rs new_rs =
     (let old_map = resource_map old_rs;
          new_map = resource_map new_rs;
          all_keys = map fst (dict_fromkeys (map fst old_map @ map fst new_map))
      in map (\<lambda>k. let old_res = map_of old_map k; new_res = map_of new_map k
                   in \<lparr>old = old_res, new = new_res, status = pair_status old_res new_res\<rparr>)
           all_keys)"

text \<open>
  The pairing in the words of the specification, to compare \<open>pair_resources\<close> with: the
  keys of the old side in first-seen order, then the keys only the new side has, each key
  once; per key the last resource of each side that carries it.
\<close>

fun first_seen :: "'a list \<Rightarrow> 'a list" where
  "first_seen [] = []"
| "first_seen (x # xs) = x # filter (\<lambda>y. y \<noteq> x) (first_seen xs)"

definition last_with_key :: "string \<Rightarrow> resource list \<Rightarrow> resource option" where
  "last_with_key k rs =
     (let carrying = filter (\<lambda>r. key r = k) rs
      in if carrying = [] then None else Some (last carrying))"

definition union_keys :: "resource list \<Rightarrow> resource list \<Rightarrow> string list" where
  "union_keys old_rs new_rs =
     first_seen (map key old_rs) @
     filter (\<lambda>k. k \<notin> set (map key old_rs)) (first_seen (map key new_rs))"

definition pair_resources_spec :: "resource list \<Rightarrow> resource list \<Rightarrow> resource_pair list" where
  "pair_resources_spec old_rs new_rs =
     map (\<lambda>k. \<lparr>old = last_with_key k old_rs, new = last_with_key k new_rs,
                status =
                  (if k \<notin> set (map key old_rs) then ''added''
                   else if k \<notin> set (map key new_rs) then ''removed''
                   else if py_eq (body (the (last_with_key k old_rs)))
                                 (body (the (last_with_key k new_rs)))
                     then ''unchanged''
                   else ''changed'')\<rparr>)
       (union_keys old_rs new_rs)"

section \<open>Change records (diff/engine.py)\<close>

text \<open>
  The dataclasses \<^verbatim>\<open>FieldChange\<close> and \<^verbatim>\<open>ChangeRecord\<close>. The fields a change record
  shares by name with a resource carry the prefix \<open>cr_\<close>.
\<close>

record field_change =
  path :: string
  old_value :: yval
  new_value :: yval
  change_type :: string

record change_record =
  resource_key :: string
  cr_kind :: string
  cr_name :: string
  cr_namespace :: string
  cr_status :: string
  changes :: "field_change list"

section \<open>The risk rules (analysis/risk.py, config.py)\<close>

datatype risk_level = SAFE | WARNING | DANGER

record risk_annotation =
  level :: risk_level
  rule :: string
  message :: string
  ann_path :: string

text \<open>\<^verbatim>\<open>s.startswith(p)\<close> and \<^verbatim>\<open>p in s\<close> on strings.\<close>

definition startswith :: "string \<Rightarrow> string \<Rightarrow> bool" where
  "startswith s p = (take (length p) s = p)"

fun py_contains :: "string \<Rightarrow> string \<Rightarrow> bool" where
  "py_contains p [] = (p = [])"
| "py_contains p (c # cs) = (startswith (c # cs) p \<or> py_contains p cs)"

definition IMMUTABLE_FIELDS :: "(string \<times> string list) list" where
  "IMMUTABLE_FIELDS =
     [(''deployment'', [''spec.selector.matchLabels'']),
      (''service'', [''spec.clusterIP'']),
      (''persistentvolumeclaim'', [''spec.storageClassName'']),
      (''job'', [''spec.selector'']),
      (''statefulset'', [''spec.volumeClaimTemplates''])]"

text \<open>
  The messages format values with \<^verbatim>\<open>str()\<close>, which the rules take as the parameter
  \<open>str_of\<close>. Every rule walks the field changes in order and appends its annotations.
\<close>

definition check_immutable_fields :: "change_record \<Rightarrow> risk_annotation list" where
  "check_immutable_fields change =
     (let kind_lower = py_lower (cr_kind change);
          immutable_paths = (case map_of IMMUTABLE_FIELDS kind_lower of None \<Rightarrow> [] | Some ps \<Rightarrow> ps)
      in concat (map (\<lambda>fc.
           concat (map (\<lambda>imm_path.
             if startswith (path fc) imm_path
             then [\<lparr>level = DANGER, rule = ''immutable_field'',
                    message = ''Immutable field '' @ [CHR 0x27] @ path fc @ [CHR 0x27] @
                      '' changed on '' @ cr_kind change @ ''/'' @ cr_name change,
                    ann_path = path fc\<rparr>]
             else []) immutable_paths)) (changes change)))"

definition check_service_type_change ::
  "(yval \<Rightarrow> string) \<Rightarrow> change_record \<Rightarrow> risk_annotation list" where
  "check_service_type_change str_of change =
     (if cr_kind change \<noteq> ''Service'' then []
      else concat (map (\<lambda>fc.
        if path fc = ''spec.type''
        then [\<lparr>level =
                 (if py_eq (old_value fc) (YStr ''ClusterIP'') \<and>
                     (py_eq (new_value fc) (YStr ''NodePort'') \<or>
                      py_eq (new_value fc) (YStr ''LoadBalancer''))
                  then DANGER else WARNING),
               rule = ''service_type_change'',
               message = ''Service type changed from '' @ str_of (old_value fc) @ '' to '' @
                 str_of (new_value fc),
               ann_path = path fc\<rparr>]
        else []) (changes change)))"

definition check_pvc_changes ::
  "(yval \<Rightarrow> string) \<Rightarrow> change_record \<Rightarrow> risk_annotation list" where
  "check_pvc_changes str_of change =
     (if cr_kind change \<noteq> ''PersistentVolumeClaim'' then []
      else concat (map (\<lambda>fc.
        (if py_contains ''storage'' (path fc) \<and> py_contains ''requests'' (path fc)
         then [\<lparr>level = WARNING, rule = ''pvc_storage_change'',
                message = ''PVC storage request changed from '' @ str_of (old_value fc) @
                  '' to '' @ str_of (new_value fc),
                ann_path = path fc\<rparr>]
         else []) @
        (if path fc = ''spec.storageClassName''
         then [\<lparr>level = DANGER, rule = ''pvc_storage_class_change'',
                message = ''PVC storageClassName changed from '' @ str_of (old_value fc) @
                  '' to '' @ str_of (new_value fc),
                ann_path = path fc\<rparr>]
         else [])) (changes change)))"

definition check_resource_deletion :: "change_record \<Rightarrow> risk_annotation list" where
  "check_resource_deletion change =
     (if cr_status change \<noteq> ''removed'' then []
      else [\<lparr>level = WARNING, rule = ''resource_deleted'',
             message = cr_kind change @ ''/'' @ cr_name change @ '' will be removed'',
             ann_path = ''''\<rparr>])"

definition check_crd_changes :: "change_record \<Rightarrow> risk_annotation list" where
  "check_crd_changes change =
     (if cr_kind change \<noteq> ''CustomResourceDefinition'' then []
      else
        (let danger_prefixes = [''spec.scope'', ''spec.versions'', ''spec.validation'', ''spec.names'']
         in concat (map (\<lambda>fc.
              if list_ex (\<lambda>prefix. startswith (path fc) prefix) danger_prefixes
              then [\<lparr>level = DANGER, rule = ''crd_spec_change'',
                     message = ''CRD spec change at '' @ [CHR 0x27] @ path fc @ [CHR 0x27] @
                       '' on '' @ cr_name change,
                     ann_path = path fc\<rparr>]
              else []) (changes change))))"

definition check_rbac_escalation :: "change_record \<Rightarrow> risk_annotation list" where
  "check_rbac_escalation change =
     (if cr_kind change \<noteq> ''ClusterRole'' \<and> cr_kind change \<noteq> ''Role'' then []
      else concat (map (\<lambda>fc.
        if startswith (path fc) ''rules''
        then [\<lparr>level = WARNING, rule = ''rbac_change'',
               message = ''RBAC rules changed at '' @ [CHR 0x27] @ path fc @ [CHR 0x27] @
                 '' on '' @ cr_kind change @ ''/'' @ cr_name change,
               ann_path = path fc\<rparr>]
        else []) (changes change)))"

text \<open>\<^verbatim>\<open>RISK_RULES\<close>, in the order of the registry, and \<^verbatim>\<open>assess_risk\<close>.\<close>

definition RISK_RULES :: "(yval \<Rightarrow> string) \<Rightarrow> (change_record \<Rightarrow> risk_annotation list) list" where
  "RISK_RULES str_of =
     [check_immutable_fields,
      check_service_type_change str_of,
      check_pvc_changes str_of,
      check_resource_deletion,
      check_crd_changes,
      check_rbac_escalation]"

definition assess_risk ::
  "(yval \<Rightarrow> string) \<Rightarrow> change_record list \<Rightarrow> (change_record \<times> risk_annotation list) list" where
  "assess_risk str_of cs =
     map (\<lambda>change. (change, concat (map (\<lambda>r. r change) (RISK_RULES str_of)))) cs"

section \<open>Noise filtering and normalisation (diff/filters.py, config.py)\<close>

text \<open>Exceptions are values: a function that can raise returns \<open>py_error + 'a\<close>.\<close>

datatype py_error = ValueError | AssertionError | AttributeError

definition backslash :: char where
  "backslash = CHR 0x5C"

text \<open>
  \<^verbatim>\<open>NOISE_PATHS\<close> is a set in the source, so the order in which \<^verbatim>\<open>strip_noise\<close> removes
  the paths is not fixed there; the list keeps the order of the source text.
\<close>

definition NOISE_PATHS :: "string list" where
  "NOISE_PATHS =
     [''metadata.creationTimestamp'',
      ''metadata.resourceVersion'',
      ''metadata.uid'',
      ''metadata.generation'',
      ''metadata.managedFields'',
      ''metadata.annotations.meta'' @ [backslash] @ ''.helm'' @ [backslash] @ ''.sh/*'',
      ''metadata.annotations.kubectl'' @ [backslash] @ ''.kubernetes'' @ [backslash] @
        ''.io/last-applied-configuration'',
      ''metadata.labels.helm'' @ [backslash] @ ''.sh/chart'',
      ''status'']"

definition UNORDERED_LIST_SORT_KEYS :: "(string \<times> string) list" where
  "UNORDERED_LIST_SORT_KEYS =
     [(''spec.template.spec.containers.*.env'', ''name''),
      (''spec.template.spec.containers.*.ports'', ''containerPort''),
      (''spec.template.spec.containers.*.volumeMounts'', ''mountPath''),
      (''spec.template.spec.volumes'', ''name''),
      (''spec.template.spec.initContainers.*.env'', ''name''),
      (''spec.template.spec.initContainers.*.ports'', ''containerPort''),
      (''spec.ports'', ''port'')]"

text \<open>
  \<^verbatim>\<open>_split_dot_path\<close>: split at every dot that no backslash precedes, then turn each
  backslash-dot into a dot. \<open>prev\<close> is the character before the one being read.
\<close>

fun split_unescaped :: "char option \<Rightarrow> string \<Rightarrow> string \<Rightarrow> string list" where
  "split_unescaped prev cur [] = [cur]"
| "split_unescaped prev cur (c # cs) =
     (if c = CHR ''.'' \<and> prev \<noteq> Some backslash then cur # split_unescaped (Some c) [] cs
      else split_unescaped (Some c) (cur @ [c]) cs)"

fun unescape_dots :: "string \<Rightarrow> string" where
  "unescape_dots (a # b # cs) =
     (if a = backslash \<and> b = CHR ''.'' then CHR ''.'' # unescape_dots cs
      else a # unescape_dots (b # cs))"
| "unescape_dots cs = cs"

definition split_dot_path :: "string \<Rightarrow> string list" where
  "split_dot_path p = map unescape_dots (split_unescaped None [] p)"

text \<open>
  \<^verbatim>\<open>_remove_path_parts\<close> deletes in place; the model returns the new value. The library
  function \<^verbatim>\<open>fnmatch.fnmatch(name, pattern)\<close> is the parameter \<open>fnm\<close>.
\<close>

fun remove_path_parts :: "(string \<Rightarrow> string \<Rightarrow> bool) \<Rightarrow> yval \<Rightarrow> string list \<Rightarrow> yval" where
  "remove_path_parts fnm obj [] = obj"
| "remove_path_parts fnm (YDict d) (k # remaining) =
     (if remaining = [] then
        (if CHR ''*'' \<in> set k \<or> CHR ''?'' \<in> set k \<or> CHR ''['' \<in> set k
         then YDict (filter (\<lambda>(k', v). \<not> fnm k' k) d)
         else if map_of d k \<noteq> None then YDict (AList.delete k d)
         else YDict d)
      else
        (case map_of d k of
           Some (YDict sub) \<Rightarrow>
             YDict (AList.update k (remove_path_parts fnm (YDict sub) remaining) d)
         | _ \<Rightarrow> YDict d))"
| "remove_path_parts fnm obj parts = obj"

definition remove_path :: "(string \<Rightarrow> string \<Rightarrow> bool) \<Rightarrow> yval \<Rightarrow> string \<Rightarrow> yval" where
  "remove_path fnm obj p = remove_path_parts fnm obj (split_dot_path p)"

definition strip_noise ::
  "(string \<Rightarrow> string \<Rightarrow> bool) \<Rightarrow> yval \<Rightarrow> string list option \<Rightarrow> yval" where
  "strip_noise fnm b extra_ignores =
     (let all_paths = remdups (NOISE_PATHS @ (case extra_ignores of None \<Rightarrow> [] | Some ps \<Rightarrow> ps))
      in foldl (remove_path fnm) b all_paths)"

subsection \<open>Normalisation\<close>

lemma size_dict_member [termination_simp]:
  "(k, v) \<in> set d \<Longrightarrow> size v < Suc (size_list (\<lambda>x. Suc (size (snd x))) d)"
  by (induction d) auto

text \<open>
  \<^verbatim>\<open>_sort_keys_recursive\<close>: the items of a dict sorted, which is by key since the keys
  differ; strings are ordered by character code, a proper prefix first.
\<close>

fun sort_keys_recursive :: "yval \<Rightarrow> yval" where
  "sort_keys_recursive (YDict d) =
     YDict (map (\<lambda>(k, v). (k, sort_keys_recursive v)) (sort_key fst d))"
| "sort_keys_recursive (YList xs) = YList (map sort_keys_recursive xs)"
| "sort_keys_recursive v = v"

text \<open>
  Python's \<open><\<close> on parsed values, \<open>None\<close> for the \<^verbatim>\<open>TypeError\<close>: numbers with numbers,
  strings with strings, lists with lists at the first position where they differ.
\<close>

fun float_lt :: "pyfloat \<Rightarrow> pyfloat \<Rightarrow> bool" where
  "float_lt (Finite r) (Finite s) = (r < s)"
| "float_lt (Finite r) PosInf = True"
| "float_lt NegInf (Finite s) = True"
| "float_lt NegInf PosInf = True"
| "float_lt _ _ = False"

fun py_lt :: "yval \<Rightarrow> yval \<Rightarrow> bool option" where
  "py_lt (YStr s) (YStr t) = Some (s < t)"
| "py_lt (YList []) (YList ys) = Some (ys \<noteq> [])"
| "py_lt (YList (x # xs)) (YList []) = Some False"
| "py_lt (YList (x # xs)) (YList (y # ys)) =
     (if elem_eq x y then py_lt (YList xs) (YList ys) else py_lt x y)"
| "py_lt a b =
     (case (as_number a, as_number b) of
        (Some f, Some g) \<Rightarrow> Some (float_lt f g)
      | _ \<Rightarrow> None)"

text \<open>
  \<^verbatim>\<open>sorted(items, key=kf)\<close>: a stable sort, \<open>None\<close> when it raises \<^verbatim>\<open>TypeError\<close>. The
  model raises when two of the keys cannot be compared, and inserts by \<open><\<close> otherwise; that
  is Python's result when the keys are numbers other than \<^verbatim>\<open>nan\<close>, or strings, or hold
  a null or a mapping, which is every sort key a manifest gives.
\<close>

fun insort_by :: "('a \<Rightarrow> 'a \<Rightarrow> bool) \<Rightarrow> 'a \<Rightarrow> 'a list \<Rightarrow> 'a list" where
  "insort_by lt x [] = [x]"
| "insort_by lt x (y # ys) = (if lt y x then y # insort_by lt x ys else x # y # ys)"

fun comparable_keys :: "yval list \<Rightarrow> bool" where
  "comparable_keys [] = True"
| "comparable_keys (k # ks) =
     (list_all (\<lambda>k'. py_lt k k' \<noteq> None \<and> py_lt k' k \<noteq> None) ks \<and> comparable_keys ks)"

definition py_sorted :: "(yval \<Rightarrow> yval) \<Rightarrow> yval list \<Rightarrow> yval list option" where
  "py_sorted kf xs =
     (if comparable_keys (map kf xs)
      then Some (foldr (insort_by (\<lambda>a b. py_lt (kf a) (kf b) = Some True)) xs [])
      else None)"

definition sort_key_of :: "string \<Rightarrow> yval \<Rightarrow> yval" where
  "sort_key_of sort_field item =
     (case item of
        YDict e \<Rightarrow> (case map_of e sort_field of None \<Rightarrow> YStr '''' | Some w \<Rightarrow> w)
      | _ \<Rightarrow> YStr '''')"

text \<open>
  \<^verbatim>\<open>_sort_list_at_path\<close> sorts in place and leaves the list as it is when the sort raises;
  the model returns the new value.
\<close>

fun sort_list_at_path :: "yval \<Rightarrow> string list \<Rightarrow> string \<Rightarrow> yval" where
  "sort_list_at_path obj [] sort_field = obj"
| "sort_list_at_path (YDict d) (k # remaining) sort_field =
     (case map_of d k of
        None \<Rightarrow> YDict d
      | Some v \<Rightarrow>
          if remaining = [] then
            (case v of
               YList items \<Rightarrow>
                 (case py_sorted (sort_key_of sort_field) items of
                    Some sorted_items \<Rightarrow> YDict (AList.update k (YList sorted_items) d)
                  | None \<Rightarrow> YDict d)
             | _ \<Rightarrow> YDict d)
          else YDict (AList.update k (sort_list_at_path v remaining sort_field) d))"
| "sort_list_at_path (YList items) (p # remaining) sort_field =
     (if p = ''*'' \<and> remaining \<noteq> []
      then YList (map (\<lambda>item. sort_list_at_path item remaining sort_field) items)
      else YList items)"
| "sort_list_at_path obj parts sort_field = obj"

text \<open>\<^verbatim>\<open>s.split(".")\<close>.\<close>

fun split_dots :: "string \<Rightarrow> string \<Rightarrow> string list" where
  "split_dots cur [] = [cur]"
| "split_dots cur (c # cs) =
     (if c = CHR ''.'' then cur # split_dots [] cs else split_dots (cur @ [c]) cs)"

definition sort_known_lists :: "yval \<Rightarrow> yval" where
  "sort_known_lists b =
     foldl (\<lambda>obj (path_pattern, sort_field).
              sort_list_at_path obj (split_dots [] path_pattern) sort_field)
       b UNORDERED_LIST_SORT_KEYS"

definition normalize_body :: "yval \<Rightarrow> yval" where
  "normalize_body b = sort_known_lists (sort_keys_recursive b)"

section \<open>The diff engine (diff/engine.py)\<close>

text \<open>
  The structural diff is the library DeepDiff; the engine takes it as the parameter \<open>dd\<close>,
  a function of the two bodies, and reads six of its report's entries: changed values and
  changed types (a path with the old and the new value), added and removed dict items and
  added and removed list items (a path with the value). A path is DeepDiff's text for it,
  such as \<^verbatim>\<open>root['spec']['replicas']\<close>.
\<close>

record deepdiff_report =
  values_changed :: "(string \<times> yval \<times> yval) list"
  type_changes :: "(string \<times> yval \<times> yval) list"
  dictionary_item_added :: "(string \<times> yval) list"
  dictionary_item_removed :: "(string \<times> yval) list"
  iterable_item_added :: "(string \<times> yval) list"
  iterable_item_removed :: "(string \<times> yval) list"

text \<open>\<^verbatim>\<open>path.replace("root", "", 1)\<close>: the first occurrence of the text is removed.\<close>

fun remove_first :: "string \<Rightarrow> string \<Rightarrow> string" where
  "remove_first p [] = []"
| "remove_first p (c # cs) =
     (if startswith (c # cs) p then drop (length p) (c # cs) else c # remove_first p cs)"

text \<open>\<^verbatim>\<open>inner.strip("'\"")\<close>: single and double quotes are dropped at both ends.\<close>

definition is_quote :: "char \<Rightarrow> bool" where
  "is_quote c = (c = CHR 0x27 \<or> c = CHR 0x22)"

definition strip_quotes :: "string \<Rightarrow> string" where
  "strip_quotes s = rev (dropWhile is_quote (rev (dropWhile is_quote s)))"

text \<open>
  The loop of \<^verbatim>\<open>_deepdiff_path_to_dot\<close>, on the text from position \<open>i\<close> on. At an
  opening bracket \<^verbatim>\<open>path.index("]", i)\<close> looks for the next closing bracket and raises
  \<^verbatim>\<open>ValueError\<close> when there is none; \<open>inner\<close> is the text between the two.
\<close>

function path_loop :: "string \<Rightarrow> string \<Rightarrow> py_error + string" where
  "path_loop [] result = Inr result"
| "path_loop (c # cs) result =
     (if c = CHR ''['' then
        (if CHR '']'' \<notin> set cs then Inl ValueError
         else
           (let inner = takeWhile (\<lambda>x. x \<noteq> CHR '']'') cs;
                rest = tl (dropWhile (\<lambda>x. x \<noteq> CHR '']'') cs)
            in if startswith inner [CHR 0x27] \<or> startswith inner [CHR 0x22]
               then path_loop rest
                      ((if result \<noteq> [] then result @ ''.'' else result) @ strip_quotes inner)
               else path_loop rest (result @ ''['' @ inner @ '']'')))
      else path_loop cs result)"
  by pat_completeness auto
termination
proof (relation "measure (\<lambda>(s, r). length s)")
  show "wf (measure (\<lambda>(s, r). length s))" by simp
next
  fix c :: char and cs result inner rest
  assume "rest = tl (dropWhile (\<lambda>x. x \<noteq> CHR '']'') cs)"
  then have "length rest \<le> length cs"
    using length_dropWhile_le [of "\<lambda>x. x \<noteq> CHR '']''" cs] by simp
  then show "((rest, (if result \<noteq> [] then result @ ''.'' else result) @ strip_quotes inner),
              c # cs, result) \<in> measure (\<lambda>(s, r). length s)"
    by simp
next
  fix c :: char and cs result inner rest
  assume "rest = tl (dropWhile (\<lambda>x. x \<noteq> CHR '']'') cs)"
  then have "length rest \<le> length cs"
    using length_dropWhile_le [of "\<lambda>x. x \<noteq> CHR '']''" cs] by simp
  then show "((rest, result @ ''['' @ inner @ '']''), c # cs, result)
              \<in> measure (\<lambda>(s, r). length s)"
    by simp
next
  fix c :: char and cs result
  show "((cs, result), c # cs, result) \<in> measure (\<lambda>(s, r). length s)" by simp
qed

definition deepdiff_path_to_dot :: "string \<Rightarrow> py_error + string" where
  "deepdiff_path_to_dot p = path_loop (remove_first ''root'' p) []"

text \<open>
  \<^verbatim>\<open>_extract_changes\<close> walks the six entries in turn; \<open>report_entries\<close> lists what it
  reads, in that order, and \<open>to_field_changes\<close> converts each path, stopping at the first
  path that raises.
\<close>

definition report_entries :: "deepdiff_report \<Rightarrow> (string \<times> yval \<times> yval \<times> string) list" where
  "report_entries r =
     map (\<lambda>(p, ov, nv). (p, ov, nv, ''value_changed'')) (values_changed r) @
     map (\<lambda>(p, ov, nv). (p, ov, nv, ''type_changed'')) (type_changes r) @
     map (\<lambda>(p, v). (p, YNull, v, ''item_added'')) (dictionary_item_added r) @
     map (\<lambda>(p, v). (p, v, YNull, ''item_removed'')) (dictionary_item_removed r) @
     map (\<lambda>(p, v). (p, YNull, v, ''item_added'')) (iterable_item_added r) @
     map (\<lambda>(p, v). (p, v, YNull, ''item_removed'')) (iterable_item_removed r)"

fun to_field_changes ::
  "(string \<times> yval \<times> yval \<times> string) list \<Rightarrow> py_error + field_change list" where
  "to_field_changes [] = Inr []"
| "to_field_changes ((p, ov, nv, t) # es) =
     (case deepdiff_path_to_dot p of
        Inl e \<Rightarrow> Inl e
      | Inr dotted \<Rightarrow>
          (case to_field_changes es of
             Inl e \<Rightarrow> Inl e
           | Inr fcs \<Rightarrow>
               Inr (\<lparr>path = dotted, old_value = ov, new_value = nv, change_type = t\<rparr> # fcs)))"

definition extract_changes :: "deepdiff_report \<Rightarrow> py_error + field_change list" where
  "extract_changes r = to_field_changes (report_entries r)"

definition record_of :: "resource \<Rightarrow> string \<Rightarrow> field_change list \<Rightarrow> change_record" where
  "record_of res st fcs =
     \<lparr>resource_key = key res, cr_kind = kind res, cr_name = name res,
      cr_namespace = namespace res, cr_status = st, changes = fcs\<rparr>"

text \<open>
  \<^verbatim>\<open>compute_diff\<close>: \<open>None\<close> is the pair that is not reported. The two \<^verbatim>\<open>assert\<close>
  statements are the \<open>AssertionError\<close> branches.
\<close>

definition compute_diff ::
  "(string \<Rightarrow> string \<Rightarrow> bool) \<Rightarrow> (string \<Rightarrow> pyfloat option) \<Rightarrow> (yval \<Rightarrow> yval \<Rightarrow> deepdiff_report) \<Rightarrow>
   resource_pair \<Rightarrow> bool \<Rightarrow> string list option \<Rightarrow> py_error + change_record option" where
  "compute_diff fnm pf dd pair show_all extra_ignores =
     (if status pair = ''unchanged'' then Inr None
      else if status pair = ''added'' then
        (case new pair of
           None \<Rightarrow> Inl AssertionError
         | Some res \<Rightarrow> Inr (Some (record_of res ''added'' [])))
      else if status pair = ''removed'' then
        (case old pair of
           None \<Rightarrow> Inl AssertionError
         | Some res \<Rightarrow> Inr (Some (record_of res ''removed'' [])))
      else
        (case (old pair, new pair) of
           (Some old_res, Some new_res) \<Rightarrow>
             (let old_body = (if show_all then body old_res
                              else strip_noise fnm (body old_res) extra_ignores);
                  new_body = (if show_all then body new_res
                              else strip_noise fnm (body new_res) extra_ignores);
                  old_body = normalize_body old_body;
                  new_body = normalize_body new_body
              in if is_semantically_equal pf old_body new_body then Inr None
                 else
                   (case extract_changes (dd old_body new_body) of
                      Inl e \<Rightarrow> Inl e
                    | Inr fcs \<Rightarrow>
                        if fcs = [] then Inr None
                        else Inr (Some (record_of old_res ''changed'' fcs))))
         | _ \<Rightarrow> Inl AssertionError))"

fun diff_all ::
  "(string \<Rightarrow> string \<Rightarrow> bool) \<Rightarrow> (string \<Rightarrow> pyfloat option) \<Rightarrow> (yval \<Rightarrow> yval \<Rightarrow> deepdiff_report) \<Rightarrow>
   resource_pair list \<Rightarrow> bool \<Rightarrow> string list option \<Rightarrow> py_error + change_record list" where
  "diff_all fnm pf dd [] show_all extra_ignores = Inr []"
| "diff_all fnm pf dd (pair # pairs) show_all extra_ignores =
     (case compute_diff fnm pf dd pair show_all extra_ignores of
        Inl e \<Rightarrow> Inl e
      | Inr rec \<Rightarrow>
          (case diff_all fnm pf dd pairs show_all extra_ignores of
             Inl e \<Rightarrow> Inl e
           | Inr results \<Rightarrow>
               Inr ((case rec of None \<Rightarrow> [] | Some r \<Rightarrow> [r]) @ results)))"

section \<open>The unchanged count (cli.py)\<close>

text \<open>\<^verbatim>\<open>total_unchanged = sum(1 for p in pairs if p.status == "unchanged")\<close>.\<close>

definition total_unchanged :: "resource_pair list \<Rightarrow> nat" where
  "total_unchanged pairs = length (filter (\<lambda>p. status p = ''unchanged'') pairs)"

section \<open>Two snapshots of one ConfigMap\<close>

text \<open>
  The ConfigMap \<^verbatim>\<open>default/cfg\<close> as deployed and as the upgrade renders it: the same
  content, with another \<^verbatim>\<open>metadata.resourceVersion\<close> and another order of the keys.
\<close>

definition cfg_live :: resource where
  "cfg_live =
     \<lparr>api_version = ''v1'', kind = ''ConfigMap'', namespace = ''default'', name = ''cfg'',
      body = YDict
        [(''apiVersion'', YStr ''v1''),
         (''kind'', YStr ''ConfigMap''),
         (''metadata'', YDict [(''name'', YStr ''cfg''), (''resourceVersion'', YStr ''1'')]),
         (''data'', YDict [(''k'', YStr ''v'')])],
      raw = ''''\<rparr>"

definition cfg_upgrade :: resource where
  "cfg_upgrade =
     \<lparr>api_version = ''v1'', kind = ''ConfigMap'', namespace = ''default'', name = ''cfg'',
      body = YDict
        [(''kind'', YStr ''ConfigMap''),
         (''apiVersion'', YStr ''v1''),
         (''data'', YDict [(''k'', YStr ''v'')]),
         (''metadata'', YDict [(''resourceVersion'', YStr ''2''), (''name'', YStr ''cfg'')])],
      raw = ''''\<rparr>"

text \<open>A Secret that only the deployed snapshot has.\<close>

definition gone_secret :: resource where
  "gone_secret =
     \<lparr>api_version = ''v1'', kind = ''Secret'', namespace = ''default'', name = ''tok'',
      body = YDict
        [(''apiVersion'', YStr ''v1''),
         (''kind'', YStr ''Secret''),
         (''metadata'', YDict [(''name'', YStr ''tok'')])],
      raw = ''''\<rparr>"

definition empty_report :: deepdiff_report where
  "empty_report =
     \<lparr>values_changed = [], type_changes = [], dictionary_item_added = [],
      dictionary_item_removed = [], iterable_item_added = [], iterable_item_removed = []\<rparr>"

section \<open>Paths as DeepDiff writes them\<close>

text \<open>
  A path into a body is a list of segments, a mapping key or a list index. \<open>dd_path\<close> is
  DeepDiff's text for it, as the docstring of \<^verbatim>\<open>_deepdiff_path_to_dot\<close> shows it:
  \<^verbatim>\<open>root\<close>, then \<^verbatim>\<open>['key']\<close> for a key and \<^verbatim>\<open>[i]\<close> for an index. \<open>dot_path\<close> is the
  path grammar of the specification: keys joined with a dot, an index appended as
  \<^verbatim>\<open>[i]\<close> with no dot before it.
\<close>

datatype segment = Key string | Idx nat

function nat_digits :: "nat \<Rightarrow> string" where
  "nat_digits n =
     (if n < 10 then [char_of (48 + n)]
      else nat_digits (n div 10) @ [char_of (48 + n mod 10)])"
  by pat_completeness auto
termination
  by (relation "measure id") auto

declare nat_digits.simps [simp del]

fun segment_text :: "segment \<Rightarrow> string" where
  "segment_text (Key k) = ''['' @ [CHR 0x27] @ k @ [CHR 0x27] @ '']''"
| "segment_text (Idx i) = ''['' @ nat_digits i @ '']''"

definition dd_path :: "segment list \<Rightarrow> string" where
  "dd_path segs = ''root'' @ concat (map segment_text segs)"

fun dot_segment :: "bool \<Rightarrow> segment \<Rightarrow> string" where
  "dot_segment first (Key k) = (if first then k else ''.'' @ k)"
| "dot_segment first (Idx i) = ''['' @ nat_digits i @ '']''"

fun dot_path :: "segment list \<Rightarrow> string" where
  "dot_path [] = []"
| "dot_path (s # ss) = dot_segment True s @ concat (map (dot_segment False) ss)"

text \<open>
  A plain key is not empty, holds no closing bracket and neither starts nor ends with a
  quote character.
\<close>

definition plain_key :: "string \<Rightarrow> bool" where
  "plain_key k = (k \<noteq> [] \<and> CHR '']'' \<notin> set k \<and> \<not> is_quote (hd k) \<and> \<not> is_quote (last k))"

fun plain_segment :: "segment \<Rightarrow> bool" where
  "plain_segment (Key k) = plain_key k"
| "plain_segment (Idx i) = True"

section \<open>The parser (parser/manifest.py)\<close>










section \<open>A manifest of three documents\<close>








section \<open>Properties of the comparator\<close>

lemmas str_defs =
  py_int_def int_strip_def int_isspace_def max_str_digits_def
  py_strip_def py_rstrip_def py_isspace_def is_digit_def digit_val_def
  BOOL_MAP_def py_lower_def py_lower_char_def

lemma float_eq_sym: "float_eq f g = float_eq g f"
  by (auto simp: float_eq_def)

lemma scalar_eq_sym: "scalar_eq a b = scalar_eq b a"
  by (cases a; cases b) (auto simp: float_eq_sym split: option.splits)

lemma list_all_zip_sym:
  assumes "length xs = length ys"
    and "\<And>x y. (x, y) \<in> set (zip xs ys) \<Longrightarrow> P x y = P y x"
  shows "list_all (\<lambda>(x, y). P x y) (zip xs ys) = list_all (\<lambda>(x, y). P x y) (zip ys xs)"
  using assms by (induction xs ys rule: list_induct2) auto

lemma both_nan_sym: "both_nan x y = both_nan y x"
  by (auto simp: both_nan_def)

lemma py_eq_sym: "py_eq a b = py_eq b a"
proof (induction a b rule: py_eq.induct)
  case (1 xs ys)
  show ?case
  proof (cases "length xs = length ys")
    case True
    have "list_all (\<lambda>(x, y). both_nan x y \<or> py_eq x y) (zip xs ys)
        = list_all (\<lambda>(x, y). both_nan x y \<or> py_eq x y) (zip ys xs)"
      using True 1 both_nan_sym by (intro list_all_zip_sym) auto
    with True show ?thesis by simp
  next
    case False
    then show ?thesis by auto
  qed
next
  case (2 d e)
  show ?case
  proof (cases "set (map fst d) = set (map fst e)")
    case True
    have "list_all (\<lambda>k. both_nan (dict_get d k) (dict_get e k) \<or>
                         py_eq (dict_get d k) (dict_get e k)) (map fst d)
        = list_all (\<lambda>k. both_nan (dict_get e k) (dict_get d k) \<or>
                         py_eq (dict_get e k) (dict_get d k)) (map fst e)"
      unfolding list_all_iff using True 2 both_nan_sym by auto
    with True show ?thesis by simp
  next
    case False
    then show ?thesis by auto
  qed
qed (simp_all add: scalar_eq_sym)

lemma coercion_checks_sym:
  "s = t \<Longrightarrow> coercion_checks pf a b s = coercion_checks pf b a t"
  unfolding coercion_checks_def
  by (simp add: py_eq_sym [of a b] py_eq_sym [of "the (coerce_numeric pf a)"]
      conj_commute eq_commute [of "coerce_bool a"])

lemma deep_semantic_equal_sym: "deep_semantic_equal pf a b = deep_semantic_equal pf b a"
proof (induction pf a b rule: deep_semantic_equal.induct)
  case (1 pf d e)
  have "list_all (\<lambda>k. deep_semantic_equal pf (dict_get d k) (dict_get e k)) (map fst d @ map fst e)
      = list_all (\<lambda>k. deep_semantic_equal pf (dict_get e k) (dict_get d k)) (map fst e @ map fst d)"
    unfolding list_all_iff using 1 by auto
  then show ?case
    unfolding deep_semantic_equal.simps by (rule coercion_checks_sym)
next
  case (2 pf xs ys)
  have "(length xs = length ys \<and> list_all (\<lambda>(x, y). deep_semantic_equal pf x y) (zip xs ys))
      = (length ys = length xs \<and> list_all (\<lambda>(x, y). deep_semantic_equal pf x y) (zip ys xs))"
  proof (cases "length xs = length ys")
    case True
    have "list_all (\<lambda>(x, y). deep_semantic_equal pf x y) (zip xs ys)
        = list_all (\<lambda>(x, y). deep_semantic_equal pf x y) (zip ys xs)"
      using True 2 by (intro list_all_zip_sym) auto
    with True show ?thesis by simp
  next
    case False
    then show ?thesis by auto
  qed
  then show ?case
    unfolding deep_semantic_equal.simps by (rule coercion_checks_sym)
qed (simp_all add: coercion_checks_sym)

lemma py_int_separator: "py_int (CHR 0x1C # ''80'') = None"
  by (simp add: str_defs)

lemma py_int_spaces: "py_int ([CHR 0x09, CHR 0x20] @ ''-1_000'' @ [CHR 0x0A]) = Some (- 1000)"
  by (simp add: str_defs)

lemma filter_digits_int_strip: "filter is_digit (int_strip s) = filter is_digit s"
proof -
  have space: "int_isspace c \<Longrightarrow> \<not> is_digit c" for c
    by (auto simp: int_isspace_def is_digit_def)
  have drop: "filter is_digit (dropWhile int_isspace t) = filter is_digit t" for t
    by (induction t) (auto simp: space)
  have "filter is_digit (int_strip s)
        = rev (filter is_digit (dropWhile int_isspace (rev (dropWhile int_isspace s))))"
    unfolding int_strip_def by (rule rev_filter [symmetric])
  also have "\<dots> = rev (filter is_digit (rev (dropWhile int_isspace s)))"
    by (simp only: drop)
  also have "\<dots> = filter is_digit (dropWhile int_isspace s)"
    by (simp only: rev_filter [symmetric] rev_rev_ident)
  also have "\<dots> = filter is_digit s"
    by (rule drop)
  finally show ?thesis .
qed

lemma py_int_digit_limit:
  "max_str_digits < length (filter is_digit s) \<Longrightarrow> py_int s = None"
proof -
  assume a: "max_str_digits < length (filter is_digit s)"
  then have "max_str_digits < length (filter is_digit (int_strip s))"
    by (simp add: filter_digits_int_strip)
  then show ?thesis
    by (cases "int_strip s") (simp_all add: py_int_def)
qed

lemma py_int_long: "py_int (replicate 4301 (CHR ''1'')) = None"
  by (rule py_int_digit_limit) (simp add: max_str_digits_def is_digit_def)

text \<open>
  Claim C6. A string \<open>s\<close> and a number \<open>n\<close> (an integer or a float, no boolean) are judged
  equal exactly when \<open>s\<close> parses as an integer that equals \<open>n\<close> or, the integer parse
  failing, as a float that equals \<open>n\<close>, in both argument orders; and the three coercion
  cases of the specification: \<^verbatim>\<open>{"port": "80"}\<close> against \<^verbatim>\<open>{"port": 80}\<close> and
  \<^verbatim>\<open>{"x": "true"}\<close> against \<^verbatim>\<open>{"x": True}\<close> are equal, \<^verbatim>\<open>{"x": "1"}\<close> against
  \<^verbatim>\<open>{"x": 2}\<close> is not. The integer parse is that of \<^verbatim>\<open>int\<close>: it fails on \<^verbatim>\<open>80\<close> behind
  the separator 28, which \<^verbatim>\<open>str.strip\<close> would drop, and on a text of 4301 digits.
\<close>

theorem semantic_string_number:
  "is_semantically_equal pf (YStr s) (YInt i) =
     (case py_int s of
        Some j \<Rightarrow> py_eq (YInt j) (YInt i)
      | None \<Rightarrow> (case pf s of Some f \<Rightarrow> py_eq (YFloat f) (YInt i) | None \<Rightarrow> False))
   \<and> is_semantically_equal pf (YStr s) (YFloat g) =
     (case py_int s of
        Some j \<Rightarrow> py_eq (YInt j) (YFloat g)
      | None \<Rightarrow> (case pf s of Some f \<Rightarrow> py_eq (YFloat f) (YFloat g) | None \<Rightarrow> False))
   \<and> is_semantically_equal pf (YInt i) (YStr s) = is_semantically_equal pf (YStr s) (YInt i)
   \<and> is_semantically_equal pf (YFloat g) (YStr s) = is_semantically_equal pf (YStr s) (YFloat g)
   \<and> is_semantically_equal pf (YDict [(''port'', YStr ''80'')]) (YDict [(''port'', YInt 80)])
   \<and> is_semantically_equal pf (YDict [(''x'', YStr ''true'')]) (YDict [(''x'', YBool True)])
   \<and> \<not> is_semantically_equal pf (YDict [(''x'', YStr ''1'')]) (YDict [(''x'', YInt 2)])
   \<and> py_int (CHR 0x1C # ''80'') = None
   \<and> py_int (replicate 4301 (CHR ''1'')) = None"
proof (intro conjI)
  show "is_semantically_equal pf (YStr s) (YInt i) =
     (case py_int s of
        Some j \<Rightarrow> py_eq (YInt j) (YInt i)
      | None \<Rightarrow> (case pf s of Some f \<Rightarrow> py_eq (YFloat f) (YInt i) | None \<Rightarrow> False))"
    by (simp add: is_semantically_equal_def coercion_checks_def split: option.splits)
  show "is_semantically_equal pf (YStr s) (YFloat g) =
     (case py_int s of
        Some j \<Rightarrow> py_eq (YInt j) (YFloat g)
      | None \<Rightarrow> (case pf s of Some f \<Rightarrow> py_eq (YFloat f) (YFloat g) | None \<Rightarrow> False))"
    by (simp add: is_semantically_equal_def coercion_checks_def split: option.splits)
  show "is_semantically_equal pf (YInt i) (YStr s) = is_semantically_equal pf (YStr s) (YInt i)"
    unfolding is_semantically_equal_def by (rule deep_semantic_equal_sym)
  show "is_semantically_equal pf (YFloat g) (YStr s) = is_semantically_equal pf (YStr s) (YFloat g)"
    unfolding is_semantically_equal_def by (rule deep_semantic_equal_sym)
  show "is_semantically_equal pf (YDict [(''port'', YStr ''80'')]) (YDict [(''port'', YInt 80)])"
    by (simp add: is_semantically_equal_def coercion_checks_def dict_get_def str_defs float_eq_def
        both_nan_def)
  show "is_semantically_equal pf (YDict [(''x'', YStr ''true'')]) (YDict [(''x'', YBool True)])"
    by (simp add: is_semantically_equal_def coercion_checks_def dict_get_def str_defs float_eq_def
        both_nan_def)
  show "\<not> is_semantically_equal pf (YDict [(''x'', YStr ''1'')]) (YDict [(''x'', YInt 2)])"
    by (simp add: is_semantically_equal_def coercion_checks_def dict_get_def str_defs float_eq_def
        both_nan_def)
  show "py_int (CHR 0x1C # ''80'') = None"
    by (rule py_int_separator)
  show "py_int (replicate 4301 (CHR ''1'')) = None"
    by (rule py_int_long)
qed

text \<open>
  Claim C7. The comparator is symmetric: for all values \<open>a\<close> and \<open>b\<close>, comparing \<open>a\<close> with
  \<open>b\<close> gives what comparing \<open>b\<close> with \<open>a\<close> gives, through the numeric and boolean
  coercions, the union of the keys of two mappings and the positions of two lists.
\<close>

theorem semantic_equality_symmetric:
  "is_semantically_equal pf a b = is_semantically_equal pf b a"
  unfolding is_semantically_equal_def by (rule deep_semantic_equal_sym)

section \<open>Properties of the pairing\<close>

lemma set_first_seen [simp]: "set (first_seen xs) = set xs"
  by (induction xs) auto

lemma distinct_first_seen [simp]: "distinct (first_seen xs)"
  by (induction xs) auto

lemma first_seen_snoc:
  "first_seen (xs @ [x]) = (if x \<in> set xs then first_seen xs else first_seen xs @ [x])"
  by (induction xs) auto

lemma first_seen_distinct: "distinct xs \<Longrightarrow> first_seen xs = xs"
  by (induction xs) (auto simp: filter_id_conv)

lemma first_seen_append:
  "first_seen (xs @ ys) = first_seen xs @ filter (\<lambda>k. k \<notin> set xs) (first_seen ys)"
proof (induction ys rule: rev_induct)
  case Nil
  then show ?case by simp
next
  case (snoc y ys)
  have "first_seen (xs @ ys @ [y]) = first_seen ((xs @ ys) @ [y])" by simp
  also have "\<dots> = (if y \<in> set (xs @ ys) then first_seen (xs @ ys) else first_seen (xs @ ys) @ [y])"
    by (rule first_seen_snoc)
  finally show ?case using snoc by (auto simp: first_seen_snoc)
qed

lemma resource_map_snoc:
  "resource_map (rs @ [r]) = AList.update (key r) r (resource_map rs)"
  by (simp add: resource_map_def)

lemma keys_resource_map: "map fst (resource_map rs) = first_seen (map key rs)"
proof (induction rs rule: rev_induct)
  case Nil
  then show ?case by (simp add: resource_map_def)
next
  case (snoc r rs)
  have "set (map key rs) = fst ` set (resource_map rs)"
    using snoc by (metis set_first_seen set_map)
  then show ?case
    using snoc by (auto simp: resource_map_snoc update_keys first_seen_snoc)
qed

lemma last_with_key_snoc:
  "last_with_key k (rs @ [r]) = (if key r = k then Some r else last_with_key k rs)"
  by (auto simp: last_with_key_def)

lemma map_of_resource_map: "map_of (resource_map rs) k = last_with_key k rs"
proof (induction rs rule: rev_induct)
  case Nil
  then show ?case by (simp add: resource_map_def last_with_key_def)
next
  case (snoc r rs)
  then show ?case
    by (auto simp: resource_map_snoc update_conv' last_with_key_snoc)
qed

lemma keys_dict_fromkeys: "map fst (dict_fromkeys ks) = first_seen ks"
proof (induction ks rule: rev_induct)
  case Nil
  then show ?case by (simp add: dict_fromkeys_def)
next
  case (snoc k ks)
  have "dict_fromkeys (ks @ [k]) = AList.update k () (dict_fromkeys ks)"
    by (simp add: dict_fromkeys_def)
  moreover have "set ks = fst ` set (dict_fromkeys ks)"
    using snoc by (metis set_first_seen set_map)
  ultimately show ?case
    using snoc by (auto simp: update_keys first_seen_snoc)
qed

lemma last_with_key_None: "last_with_key k rs = None \<longleftrightarrow> k \<notin> set (map key rs)"
  by (auto simp: last_with_key_def filter_empty_conv)

lemma last_with_key_Some: "last_with_key k rs = Some r \<Longrightarrow> r \<in> set rs \<and> key r = k"
proof -
  assume a: "last_with_key k rs = Some r"
  then have ne: "filter (\<lambda>r. key r = k) rs \<noteq> []" and r: "r = last (filter (\<lambda>r. key r = k) rs)"
    by (auto simp: last_with_key_def Let_def split: if_splits)
  from ne have "last (filter (\<lambda>r. key r = k) rs) \<in> set (filter (\<lambda>r. key r = k) rs)"
    by (rule last_in_set)
  with r show ?thesis by auto
qed

lemma all_keys_eq:
  "map fst (dict_fromkeys (map fst (resource_map old_rs) @ map fst (resource_map new_rs)))
     = union_keys old_rs new_rs"
  by (simp add: keys_dict_fromkeys keys_resource_map first_seen_append first_seen_distinct
      union_keys_def)

lemma pair_status_spec:
  "pair_status (last_with_key k old_rs) (last_with_key k new_rs) =
     (if k \<notin> set (map key old_rs) then ''added''
      else if k \<notin> set (map key new_rs) then ''removed''
      else if py_eq (body (the (last_with_key k old_rs))) (body (the (last_with_key k new_rs)))
        then ''unchanged''
      else ''changed'')"
  using last_with_key_None [of k old_rs] last_with_key_None [of k new_rs]
  by (auto simp: pair_status_def split: option.splits)

lemma pair_resources_refines:
  "pair_resources old_rs new_rs = pair_resources_spec old_rs new_rs"
  unfolding pair_resources_def pair_resources_spec_def Let_def all_keys_eq map_of_resource_map
    pair_status_spec ..

lemma distinct_union_keys: "distinct (union_keys old_rs new_rs)"
  by (auto simp: union_keys_def)

lemma set_union_keys:
  "set (union_keys old_rs new_rs) = set (map key old_rs) \<union> set (map key new_rs)"
  by (auto simp: union_keys_def)

lemma elem_eq_same: "both_nan v v \<or> py_eq v v"
proof (induction v)
  case (YList xs)
  have "both_nan x y \<or> py_eq x y" if "(x, y) \<in> set (zip xs xs)" for x y
  proof -
    from that have "x = y" and "x \<in> set xs" by (induction xs) auto
    with YList show ?thesis by simp
  qed
  then show ?case by (auto simp: list_all_iff)
next
  case (YDict d)
  have "both_nan (dict_get d k) (dict_get d k) \<or> py_eq (dict_get d k) (dict_get d k)"
    if "k \<in> set (map fst d)" for k
  proof -
    from that obtain v where v: "map_of d k = Some v"
      by (cases "map_of d k") (auto simp: map_of_eq_None_iff)
    then have "(k, v) \<in> set d" by (rule map_of_SomeD)
    then have "both_nan v v \<or> py_eq v v" using YDict by fastforce
    with v show ?thesis by (simp add: dict_get_def)
  qed
  then show ?case by (simp add: list_all_iff)
qed (auto simp: both_nan_def float_eq_def)

lemma py_eq_refl: "py_eq b b \<longleftrightarrow> b \<noteq> YFloat NaN"
  using elem_eq_same [of b] by (cases b) (auto simp: both_nan_def float_eq_def)

lemma union_keys_same: "union_keys rs rs = first_seen (map key rs)"
  by (simp add: union_keys_def)

lemma last_with_key_the: "k \<in> set (map key rs) \<Longrightarrow> \<exists>r. last_with_key k rs = Some r"
  using last_with_key_None [of k rs] by auto

lemma pair_resources_same:
  "map status (pair_resources rs rs) =
     map (\<lambda>k. if body (the (last_with_key k rs)) = YFloat NaN then ''changed'' else ''unchanged'')
       (first_seen (map key rs))"
  unfolding pair_resources_refines pair_resources_spec_def union_keys_same
  by (simp add: py_eq_refl)

text \<open>
  Claim C3. For all resource lists \<open>old_rs\<close> and \<open>new_rs\<close>, \<open>pair_resources\<close> returns the
  pairs of the specification: one pair per key of \<open>union_keys\<close>, which lists the old
  side's keys in first-seen order, then the keys only the new side has, holds no key twice
  and holds exactly the keys of the two sides; each pair carries the last resource of each
  side with that key; its status is \<^verbatim>\<open>removed\<close> when only the old side has the key,
  \<^verbatim>\<open>added\<close> when only the new side has it, \<^verbatim>\<open>unchanged\<close> when the two bodies are equal
  (Python's \<open>==\<close>, before any normalisation) and \<^verbatim>\<open>changed\<close> otherwise. A snapshot paired
  with itself gives \<^verbatim>\<open>unchanged\<close> for every key, also when a body holds \<^verbatim>\<open>nan\<close> inside a
  mapping or a list (a body that is the bare float \<^verbatim>\<open>nan\<close>, which no manifest is, would
  differ from itself).
\<close>

theorem pair_resources_correct:
  "pair_resources old_rs new_rs = pair_resources_spec old_rs new_rs
   \<and> length (pair_resources old_rs new_rs) = length (union_keys old_rs new_rs)
   \<and> distinct (union_keys old_rs new_rs)
   \<and> set (union_keys old_rs new_rs) = set (map key old_rs) \<union> set (map key new_rs)
   \<and> take (length (first_seen (map key old_rs))) (union_keys old_rs new_rs)
        = first_seen (map key old_rs)
   \<and> map status (pair_resources old_rs old_rs) =
        map (\<lambda>k. if body (the (last_with_key k old_rs)) = YFloat NaN
                  then ''changed'' else ''unchanged'')
          (first_seen (map key old_rs))"
proof (intro conjI)
  show "pair_resources old_rs new_rs = pair_resources_spec old_rs new_rs"
    by (rule pair_resources_refines)
  show "length (pair_resources old_rs new_rs) = length (union_keys old_rs new_rs)"
    by (simp add: pair_resources_refines pair_resources_spec_def)
  show "distinct (union_keys old_rs new_rs)"
    by (rule distinct_union_keys)
  show "set (union_keys old_rs new_rs) = set (map key old_rs) \<union> set (map key new_rs)"
    by (rule set_union_keys)
  show "take (length (first_seen (map key old_rs))) (union_keys old_rs new_rs)
        = first_seen (map key old_rs)"
    by (simp add: union_keys_def)
  show "map status (pair_resources old_rs old_rs) =
        map (\<lambda>k. if body (the (last_with_key k old_rs)) = YFloat NaN
                  then ''changed'' else ''unchanged'')
          (first_seen (map key old_rs))"
    by (rule pair_resources_same)
qed

section \<open>Properties of the risk rules\<close>

lemma scalar_eq_YStr [simp]: "scalar_eq v (YStr s) \<longleftrightarrow> v = YStr s"
  by (cases v) auto

lemma py_eq_YStr [simp]: "py_eq v (YStr s) \<longleftrightarrow> v = YStr s"
  by (cases v) auto

lemma startswith_iff: "startswith s p \<longleftrightarrow> (\<exists>rest. s = p @ rest)"
  unfolding startswith_def
  by (metis append_eq_conv_conj append_take_drop_id)

lemma py_contains_iff: "py_contains p s \<longleftrightarrow> (\<exists>u v. s = u @ p @ v)"
proof (induction s)
  case Nil
  then show ?case by auto
next
  case (Cons c cs)
  show ?case
  proof
    assume "py_contains p (c # cs)"
    then consider "startswith (c # cs) p" | "py_contains p cs" by auto
    then show "\<exists>u v. c # cs = u @ p @ v"
    proof cases
      case 1
      then obtain rest where "c # cs = p @ rest" by (auto simp: startswith_iff)
      then have "c # cs = [] @ p @ rest" by simp
      then show ?thesis by blast
    next
      case 2
      then obtain u v where "cs = u @ p @ v" using Cons by auto
      then have "c # cs = (c # u) @ p @ v" by simp
      then show ?thesis by blast
    qed
  next
    assume "\<exists>u v. c # cs = u @ p @ v"
    then obtain u v where uv: "c # cs = u @ p @ v" by auto
    show "py_contains p (c # cs)"
    proof (cases u)
      case Nil
      with uv have "startswith (c # cs) p" by (auto simp: startswith_iff)
      then show ?thesis by simp
    next
      case (Cons a u')
      with uv have "cs = u' @ p @ v" by simp
      then have "py_contains p cs" using Cons.IH by blast
      then show ?thesis by simp
    qed
  qed
qed

text \<open>
  Claim C4. A record whose kind is not exactly \<^verbatim>\<open>Service\<close> gets nothing from the service
  rule. For a record of kind \<^verbatim>\<open>Service\<close>, the rule gives one annotation per field change whose
  path is exactly \<^verbatim>\<open>spec.type\<close>, in order, each with rule \<^verbatim>\<open>service_type_change\<close> and
  with severity danger when the old value is \<^verbatim>\<open>"ClusterIP"\<close> and the new value is
  \<^verbatim>\<open>"NodePort"\<close> or \<^verbatim>\<open>"LoadBalancer"\<close>, warning otherwise. A changed Service whose only
  field change is \<^verbatim>\<open>spec.type\<close> from \<^verbatim>\<open>"ClusterIP"\<close> to \<^verbatim>\<open>"LoadBalancer"\<close> gets, from
  all the rules together, exactly one annotation: danger, \<^verbatim>\<open>service_type_change\<close>.
\<close>

theorem service_type_rule:
  "(cr_kind c \<noteq> ''Service'' \<longrightarrow> check_service_type_change str_of c = [])
   \<and> (cr_kind c = ''Service'' \<longrightarrow>
        map (\<lambda>a. (level a, rule a, ann_path a)) (check_service_type_change str_of c) =
        map (\<lambda>fc. (if old_value fc = YStr ''ClusterIP'' \<and>
                       (new_value fc = YStr ''NodePort'' \<or> new_value fc = YStr ''LoadBalancer'')
                    then DANGER else WARNING,
                    ''service_type_change'', ''spec.type''))
          (filter (\<lambda>fc. path fc = ''spec.type'') (changes c)))
   \<and> (cr_kind c = ''Service'' \<and> cr_status c = ''changed'' \<and>
        changes c = [\<lparr>path = ''spec.type'', old_value = YStr ''ClusterIP'',
                      new_value = YStr ''LoadBalancer'', change_type = t\<rparr>] \<longrightarrow>
        (\<exists>a. assess_risk str_of [c] = [(c, [a])] \<and> level a = DANGER \<and>
             rule a = ''service_type_change'' \<and> ann_path a = ''spec.type''))"
proof (intro conjI impI)
  assume "cr_kind c \<noteq> ''Service''"
  then show "check_service_type_change str_of c = []"
    by (simp add: check_service_type_change_def)
next
  assume k: "cr_kind c = ''Service''"
  have "map (\<lambda>a. (level a, rule a, ann_path a))
          (concat (map (\<lambda>fc.
            if path fc = ''spec.type''
            then [\<lparr>level =
                 (if py_eq (old_value fc) (YStr ''ClusterIP'') \<and>
                     (py_eq (new_value fc) (YStr ''NodePort'') \<or>
                      py_eq (new_value fc) (YStr ''LoadBalancer''))
                  then DANGER else WARNING),
               rule = ''service_type_change'',
               message = ''Service type changed from '' @ str_of (old_value fc) @ '' to '' @
                 str_of (new_value fc),
               ann_path = path fc\<rparr>]
            else []) fcs)) =
        map (\<lambda>fc. (if old_value fc = YStr ''ClusterIP'' \<and>
                       (new_value fc = YStr ''NodePort'' \<or> new_value fc = YStr ''LoadBalancer'')
                    then DANGER else WARNING,
                    ''service_type_change'', ''spec.type''))
          (filter (\<lambda>fc. path fc = ''spec.type'') fcs)" for fcs :: "field_change list"
    by (induction fcs) simp_all
  with k show "map (\<lambda>a. (level a, rule a, ann_path a)) (check_service_type_change str_of c) =
        map (\<lambda>fc. (if old_value fc = YStr ''ClusterIP'' \<and>
                       (new_value fc = YStr ''NodePort'' \<or> new_value fc = YStr ''LoadBalancer'')
                    then DANGER else WARNING,
                    ''service_type_change'', ''spec.type''))
          (filter (\<lambda>fc. path fc = ''spec.type'') (changes c))"
    by (simp add: check_service_type_change_def)
next
  assume a: "cr_kind c = ''Service'' \<and> cr_status c = ''changed'' \<and>
        changes c = [\<lparr>path = ''spec.type'', old_value = YStr ''ClusterIP'',
                      new_value = YStr ''LoadBalancer'', change_type = t\<rparr>]"
  then show "\<exists>a. assess_risk str_of [c] = [(c, [a])] \<and> level a = DANGER \<and>
             rule a = ''service_type_change'' \<and> ann_path a = ''spec.type''"
    by (simp add: assess_risk_def RISK_RULES_def check_immutable_fields_def
        check_service_type_change_def check_pvc_changes_def check_resource_deletion_def
        check_crd_changes_def check_rbac_escalation_def IMMUTABLE_FIELDS_def startswith_def
        str_defs)
qed

theorem service_type_rule_witness:
  "cr_kind \<lparr>resource_key = ''v1/Service/default/web'', cr_kind = ''Service'', cr_name = ''web'',
             cr_namespace = ''default'', cr_status = ''changed'',
             changes = [\<lparr>path = ''spec.type'', old_value = YStr ''ClusterIP'',
                          new_value = YStr ''LoadBalancer'', change_type = ''value_changed''\<rparr>]\<rparr>
     = ''Service''
   \<and> map (\<lambda>a. (level a, rule a, ann_path a))
        (check_service_type_change (\<lambda>v. '''')
          \<lparr>resource_key = ''v1/Service/default/web'', cr_kind = ''Service'', cr_name = ''web'',
            cr_namespace = ''default'', cr_status = ''changed'',
            changes = [\<lparr>path = ''spec.type'', old_value = YStr ''ClusterIP'',
                         new_value = YStr ''LoadBalancer'', change_type = ''value_changed''\<rparr>]\<rparr>)
     = [(DANGER, ''service_type_change'', ''spec.type'')]"
  using service_type_rule [of
      "\<lparr>resource_key = ''v1/Service/default/web'', cr_kind = ''Service'', cr_name = ''web'',
        cr_namespace = ''default'', cr_status = ''changed'',
        changes = [\<lparr>path = ''spec.type'', old_value = YStr ''ClusterIP'',
                     new_value = YStr ''LoadBalancer'', change_type = ''value_changed''\<rparr>]\<rparr>"
      "\<lambda>v. ''''"]
  by simp

text \<open>
  Claim C9. A record whose kind is not exactly \<^verbatim>\<open>PersistentVolumeClaim\<close> gets nothing from
  the storage rule. For a record of that kind, every field change whose path holds
  \<^verbatim>\<open>storage\<close> and \<^verbatim>\<open>requests\<close> as substrings, anywhere and in any order, gets a warning
  \<^verbatim>\<open>pvc_storage_change\<close>, and a field change gets the danger \<^verbatim>\<open>pvc_storage_class_change\<close>
  exactly when its path is \<^verbatim>\<open>spec.storageClassName\<close>; the rule gives nothing else. So a
  change at \<^verbatim>\<open>metadata.annotations.requests-for-storage\<close>, which is not under
  \<^verbatim>\<open>spec.resources.requests.storage\<close>, is warned about.
\<close>

theorem pvc_rule:
  "(cr_kind c \<noteq> ''PersistentVolumeClaim'' \<longrightarrow> check_pvc_changes str_of c = [])
   \<and> (cr_kind c = ''PersistentVolumeClaim'' \<longrightarrow>
        map (\<lambda>a. (level a, rule a, ann_path a)) (check_pvc_changes str_of c) =
        concat (map (\<lambda>fc.
          (if (\<exists>u v. path fc = u @ ''storage'' @ v) \<and> (\<exists>u v. path fc = u @ ''requests'' @ v)
           then [(WARNING, ''pvc_storage_change'', path fc)] else []) @
          (if path fc = ''spec.storageClassName''
           then [(DANGER, ''pvc_storage_class_change'', path fc)] else []))
          (changes c)))
   \<and> (cr_kind c = ''PersistentVolumeClaim'' \<and>
        changes c = [\<lparr>path = ''metadata.annotations.requests-for-storage'', old_value = ov,
                      new_value = nv, change_type = t\<rparr>] \<longrightarrow>
        map (\<lambda>a. (level a, rule a, ann_path a)) (check_pvc_changes str_of c) =
          [(WARNING, ''pvc_storage_change'', ''metadata.annotations.requests-for-storage'')])"
proof (intro conjI impI)
  assume "cr_kind c \<noteq> ''PersistentVolumeClaim''"
  then show "check_pvc_changes str_of c = []"
    by (simp add: check_pvc_changes_def)
next
  assume k: "cr_kind c = ''PersistentVolumeClaim''"
  have "map (\<lambda>a. (level a, rule a, ann_path a))
          (concat (map (\<lambda>fc.
        (if py_contains ''storage'' (path fc) \<and> py_contains ''requests'' (path fc)
         then [\<lparr>level = WARNING, rule = ''pvc_storage_change'',
                message = ''PVC storage request changed from '' @ str_of (old_value fc) @
                  '' to '' @ str_of (new_value fc),
                ann_path = path fc\<rparr>]
         else []) @
        (if path fc = ''spec.storageClassName''
         then [\<lparr>level = DANGER, rule = ''pvc_storage_class_change'',
                message = ''PVC storageClassName changed from '' @ str_of (old_value fc) @
                  '' to '' @ str_of (new_value fc),
                ann_path = path fc\<rparr>]
         else [])) fcs)) =
        concat (map (\<lambda>fc.
          (if (\<exists>u v. path fc = u @ ''storage'' @ v) \<and> (\<exists>u v. path fc = u @ ''requests'' @ v)
           then [(WARNING, ''pvc_storage_change'', path fc)] else []) @
          (if path fc = ''spec.storageClassName''
           then [(DANGER, ''pvc_storage_class_change'', path fc)] else []))
          fcs)" for fcs :: "field_change list"
    by (induction fcs) (simp_all add: py_contains_iff)
  with k show "map (\<lambda>a. (level a, rule a, ann_path a)) (check_pvc_changes str_of c) =
        concat (map (\<lambda>fc.
          (if (\<exists>u v. path fc = u @ ''storage'' @ v) \<and> (\<exists>u v. path fc = u @ ''requests'' @ v)
           then [(WARNING, ''pvc_storage_change'', path fc)] else []) @
          (if path fc = ''spec.storageClassName''
           then [(DANGER, ''pvc_storage_class_change'', path fc)] else []))
          (changes c))"
    by (simp add: check_pvc_changes_def)
next
  assume a: "cr_kind c = ''PersistentVolumeClaim'' \<and>
        changes c = [\<lparr>path = ''metadata.annotations.requests-for-storage'', old_value = ov,
                      new_value = nv, change_type = t\<rparr>]"
  then show "map (\<lambda>a. (level a, rule a, ann_path a)) (check_pvc_changes str_of c) =
          [(WARNING, ''pvc_storage_change'', ''metadata.annotations.requests-for-storage'')]"
    by (simp add: check_pvc_changes_def startswith_def)
qed

theorem pvc_rule_witness:
  "cr_kind \<lparr>resource_key = ''v1/PersistentVolumeClaim/default/data'',
             cr_kind = ''PersistentVolumeClaim'', cr_name = ''data'',
             cr_namespace = ''default'', cr_status = ''changed'',
             changes = [\<lparr>path = ''metadata.annotations.requests-for-storage'',
                          old_value = YStr ''a'', new_value = YStr ''b'',
                          change_type = ''value_changed''\<rparr>]\<rparr>
     = ''PersistentVolumeClaim''
   \<and> map (\<lambda>a. (level a, rule a, ann_path a))
        (check_pvc_changes (\<lambda>v. '''')
          \<lparr>resource_key = ''v1/PersistentVolumeClaim/default/data'',
            cr_kind = ''PersistentVolumeClaim'', cr_name = ''data'',
            cr_namespace = ''default'', cr_status = ''changed'',
            changes = [\<lparr>path = ''metadata.annotations.requests-for-storage'',
                         old_value = YStr ''a'', new_value = YStr ''b'',
                         change_type = ''value_changed''\<rparr>]\<rparr>)
     = [(WARNING, ''pvc_storage_change'', ''metadata.annotations.requests-for-storage'')]"
  using conjunct2 [OF conjunct2 [OF pvc_rule [of
      "\<lparr>resource_key = ''v1/PersistentVolumeClaim/default/data'',
        cr_kind = ''PersistentVolumeClaim'', cr_name = ''data'',
        cr_namespace = ''default'', cr_status = ''changed'',
        changes = [\<lparr>path = ''metadata.annotations.requests-for-storage'',
                     old_value = YStr ''a'', new_value = YStr ''b'',
                     change_type = ''value_changed''\<rparr>]\<rparr>"
      "\<lambda>v. ''''" "YStr ''a''" "YStr ''b''" "''value_changed''"]]]
  by simp

text \<open>
  Claim C10. The immutable-field rule looks the lower-cased kind up in \<^verbatim>\<open>IMMUTABLE_FIELDS\<close>
  and flags a field change for each configured prefix its path starts with, as a plain
  string prefix: whatever follows the prefix, the change gets a danger annotation
  \<^verbatim>\<open>immutable_field\<close>, and the rule gives nothing else. So for kind \<^verbatim>\<open>Service\<close> a change at
  \<^verbatim>\<open>spec.clusterIPs\<close>, a field other than \<^verbatim>\<open>spec.clusterIP\<close>, is flagged.
\<close>

lemma py_lower_Service: "py_lower ''Service'' = ''service''"
  by code_simp

theorem immutable_prefix_rule:
  "(map_of IMMUTABLE_FIELDS (py_lower (cr_kind c)) = None \<longrightarrow> check_immutable_fields c = [])
   \<and> (map_of IMMUTABLE_FIELDS (py_lower (cr_kind c)) = Some prefixes \<longrightarrow>
        map (\<lambda>a. (level a, rule a, ann_path a)) (check_immutable_fields c) =
        concat (map (\<lambda>fc. concat (map (\<lambda>p.
            if (\<exists>rest. path fc = p @ rest) then [(DANGER, ''immutable_field'', path fc)] else [])
          prefixes)) (changes c)))
   \<and> (cr_kind c = ''Service'' \<and>
        changes c = [\<lparr>path = ''spec.clusterIPs'', old_value = ov, new_value = nv,
                      change_type = t\<rparr>] \<longrightarrow>
        map (\<lambda>a. (level a, rule a, ann_path a)) (check_immutable_fields c) =
          [(DANGER, ''immutable_field'', ''spec.clusterIPs'')])"
proof (intro conjI impI)
  assume "map_of IMMUTABLE_FIELDS (py_lower (cr_kind c)) = None"
  then show "check_immutable_fields c = []"
    by (simp add: check_immutable_fields_def)
next
  assume k: "map_of IMMUTABLE_FIELDS (py_lower (cr_kind c)) = Some prefixes"
  have inner: "map (\<lambda>a. (level a, rule a, ann_path a))
          (concat (map (\<lambda>imm_path.
             if startswith (path fc) imm_path
             then [\<lparr>level = DANGER, rule = ''immutable_field'',
                    message = ''Immutable field '' @ [CHR 0x27] @ path fc @ [CHR 0x27] @
                      '' changed on '' @ cr_kind c @ ''/'' @ cr_name c,
                    ann_path = path fc\<rparr>]
             else []) ps)) =
        concat (map (\<lambda>p.
            if (\<exists>rest. path fc = p @ rest) then [(DANGER, ''immutable_field'', path fc)] else [])
          ps)" for fc :: field_change and ps
    by (induction ps) (simp_all add: startswith_iff)
  have outer: "map (\<lambda>a. (level a, rule a, ann_path a))
          (concat (map (\<lambda>fc. concat (map (\<lambda>imm_path.
             if startswith (path fc) imm_path
             then [\<lparr>level = DANGER, rule = ''immutable_field'',
                    message = ''Immutable field '' @ [CHR 0x27] @ path fc @ [CHR 0x27] @
                      '' changed on '' @ cr_kind c @ ''/'' @ cr_name c,
                    ann_path = path fc\<rparr>]
             else []) prefixes)) fcs)) =
        concat (map (\<lambda>fc. concat (map (\<lambda>p.
            if (\<exists>rest. path fc = p @ rest) then [(DANGER, ''immutable_field'', path fc)] else [])
          prefixes)) fcs)" for fcs :: "field_change list"
    by (induction fcs) (simp_all add: inner)
  from k show "map (\<lambda>a. (level a, rule a, ann_path a)) (check_immutable_fields c) =
        concat (map (\<lambda>fc. concat (map (\<lambda>p.
            if (\<exists>rest. path fc = p @ rest) then [(DANGER, ''immutable_field'', path fc)] else [])
          prefixes)) (changes c))"
    by (simp add: check_immutable_fields_def outer)
next
  assume "cr_kind c = ''Service'' \<and>
        changes c = [\<lparr>path = ''spec.clusterIPs'', old_value = ov, new_value = nv,
                      change_type = t\<rparr>]"
  then show "map (\<lambda>a. (level a, rule a, ann_path a)) (check_immutable_fields c) =
          [(DANGER, ''immutable_field'', ''spec.clusterIPs'')]"
    by (simp add: check_immutable_fields_def IMMUTABLE_FIELDS_def startswith_def
        py_lower_Service)
qed

theorem immutable_prefix_rule_witness:
  "cr_kind \<lparr>resource_key = ''v1/Service/default/web'', cr_kind = ''Service'', cr_name = ''web'',
             cr_namespace = ''default'', cr_status = ''changed'',
             changes = [\<lparr>path = ''spec.clusterIPs'', old_value = YNull,
                          new_value = YList [YStr ''10.0.0.1''],
                          change_type = ''item_added''\<rparr>]\<rparr>
     = ''Service''
   \<and> map (\<lambda>a. (level a, rule a, ann_path a))
        (check_immutable_fields
          \<lparr>resource_key = ''v1/Service/default/web'', cr_kind = ''Service'', cr_name = ''web'',
            cr_namespace = ''default'', cr_status = ''changed'',
            changes = [\<lparr>path = ''spec.clusterIPs'', old_value = YNull,
                         new_value = YList [YStr ''10.0.0.1''],
                         change_type = ''item_added''\<rparr>]\<rparr>)
     = [(DANGER, ''immutable_field'', ''spec.clusterIPs'')]"
  using conjunct2 [OF conjunct2 [OF immutable_prefix_rule [of
      "\<lparr>resource_key = ''v1/Service/default/web'', cr_kind = ''Service'', cr_name = ''web'',
        cr_namespace = ''default'', cr_status = ''changed'',
        changes = [\<lparr>path = ''spec.clusterIPs'', old_value = YNull,
                     new_value = YList [YStr ''10.0.0.1''],
                     change_type = ''item_added''\<rparr>]\<rparr>"
      _ YNull "YList [YStr ''10.0.0.1'']" "''item_added''"]]]
  by simp

section \<open>Properties of the diff engine\<close>

text \<open>
  The comparator is the gate of \<open>compute_diff\<close>: a changed pair whose stripped and
  normalised bodies are semantically equal is not reported.
\<close>

lemma semantically_equal_pair_not_reported:
  assumes "status pair = ''changed''"
    and "old pair = Some old_res" and "new pair = Some new_res"
    and "is_semantically_equal pf
           (normalize_body (strip_noise fnm (body old_res) extra_ignores))
           (normalize_body (strip_noise fnm (body new_res) extra_ignores))"
  shows "compute_diff fnm pf dd pair False extra_ignores = Inr None"
  using assms by (simp add: compute_diff_def)

lemma diff_all_member:
  "diff_all fnm pf dd pairs show_all extra_ignores = Inr recs \<Longrightarrow>
   pair \<in> set pairs \<Longrightarrow>
   compute_diff fnm pf dd pair show_all extra_ignores = Inr (Some r) \<Longrightarrow>
   r \<in> set recs"
  by (induction pairs arbitrary: recs) (auto split: sum.splits option.splits)

text \<open>
  Claim C1, at the two snapshots \<open>[cfg_live]\<close> and \<open>[cfg_upgrade]\<close>, which differ in
  \<^verbatim>\<open>metadata.resourceVersion\<close> and in key order only: the pair is \<^verbatim>\<open>changed\<close>, since the
  raw bodies differ; \<open>diff_all\<close> reports no change record, whatever the library functions
  do; and the unchanged count is 0, where the number of resources is 1.
\<close>

theorem noise_only_pair_not_counted:
  "pair_resources [cfg_live] [cfg_upgrade] =
     [\<lparr>old = Some cfg_live, new = Some cfg_upgrade, status = ''changed''\<rparr>]
   \<and> diff_all fnm pf dd (pair_resources [cfg_live] [cfg_upgrade]) False None = Inr []
   \<and> total_unchanged (pair_resources [cfg_live] [cfg_upgrade]) = 0
   \<and> length (pair_resources [cfg_live] [cfg_upgrade]) = 1"
proof -
  have pairs: "pair_resources [cfg_live] [cfg_upgrade] =
     [\<lparr>old = Some cfg_live, new = Some cfg_upgrade, status = ''changed''\<rparr>]"
    by (simp add: cfg_live_def cfg_upgrade_def pair_resources_def resource_map_def
        dict_fromkeys_def key_def pair_status_def dict_get_def both_nan_def)
  have "is_semantically_equal pf
           (normalize_body (strip_noise fnm (body cfg_live) None))
           (normalize_body (strip_noise fnm (body cfg_upgrade) None))"
    by (simp add: cfg_live_def cfg_upgrade_def dict_get_def
        strip_noise_def NOISE_PATHS_def remove_path_def split_dot_path_def backslash_def
        normalize_body_def sort_known_lists_def UNORDERED_LIST_SORT_KEYS_def
        is_semantically_equal_def coercion_checks_def both_nan_def)
  then have "compute_diff fnm pf dd
      \<lparr>old = Some cfg_live, new = Some cfg_upgrade, status = ''changed''\<rparr> False None = Inr None"
    by (intro semantically_equal_pair_not_reported) simp_all
  then have "diff_all fnm pf dd (pair_resources [cfg_live] [cfg_upgrade]) False None = Inr []"
    by (simp add: pairs)
  then show ?thesis
    by (simp add: pairs total_unchanged_def)
qed

lemma pair_resources_well_formed:
  assumes "p \<in> set (pair_resources old_rs new_rs)"
  shows "(status p = ''added'' \<and> new p \<noteq> None) \<or>
         (status p = ''removed'' \<and> old p \<noteq> None) \<or>
         status p = ''unchanged'' \<or>
         (status p = ''changed'' \<and> old p \<noteq> None \<and> new p \<noteq> None)"
proof -
  from assms obtain k where k: "k \<in> set (union_keys old_rs new_rs)"
    and p: "p = \<lparr>old = last_with_key k old_rs, new = last_with_key k new_rs,
                status =
                  (if k \<notin> set (map key old_rs) then ''added''
                   else if k \<notin> set (map key new_rs) then ''removed''
                   else if py_eq (body (the (last_with_key k old_rs)))
                                 (body (the (last_with_key k new_rs)))
                     then ''unchanged''
                   else ''changed'')\<rparr>"
    unfolding pair_resources_refines pair_resources_spec_def by auto
  from k have "k \<in> set (map key old_rs) \<or> k \<in> set (map key new_rs)"
    by (simp add: set_union_keys)
  then show ?thesis
    using last_with_key_None [of k old_rs] last_with_key_None [of k new_rs]
    by (auto simp: p)
qed

lemma compute_diff_returns:
  assumes paths: "\<forall>a b. \<exists>fcs. extract_changes (dd a b) = Inr fcs"
    and p: "p \<in> set (pair_resources old_rs new_rs)"
  shows "\<exists>x. compute_diff fnm pf dd p show_all extra_ignores = Inr x"
proof -
  consider "status p = ''added'' \<and> new p \<noteq> None" | "status p = ''removed'' \<and> old p \<noteq> None"
    | "status p = ''unchanged''" | "status p = ''changed'' \<and> old p \<noteq> None \<and> new p \<noteq> None"
    using pair_resources_well_formed [OF p] by blast
  then show ?thesis
  proof cases
    case 1
    then show ?thesis by (auto simp: compute_diff_def)
  next
    case 2
    then show ?thesis by (auto simp: compute_diff_def)
  next
    case 3
    then show ?thesis by (simp add: compute_diff_def)
  next
    case 4
    then obtain o_res n_res where on: "old p = Some o_res" "new p = Some n_res" by auto
    let ?ob = "normalize_body (if show_all then body o_res
                               else strip_noise fnm (body o_res) extra_ignores)"
    let ?nb = "normalize_body (if show_all then body n_res
                               else strip_noise fnm (body n_res) extra_ignores)"
    from paths obtain fcs where "extract_changes (dd ?ob ?nb) = Inr fcs" by blast
    with 4 on show ?thesis
      by (simp add: compute_diff_def Let_def)
  qed
qed

lemma diff_all_returns:
  "(\<forall>p \<in> set pairs. \<exists>x. compute_diff fnm pf dd p show_all extra_ignores = Inr x) \<Longrightarrow>
   \<exists>recs. diff_all fnm pf dd pairs show_all extra_ignores = Inr recs"
  by (induction pairs) (auto split: sum.splits option.splits)

lemma assess_risk_member:
  "c \<in> set cs \<Longrightarrow> assess_risk str_of [c] = [(c, anns)] \<Longrightarrow> (c, anns) \<in> set (assess_risk str_of cs)"
  by (auto simp: assess_risk_def)

text \<open>
  Claim C5. For every key \<open>k\<close> that only the old snapshot has, there is a resource \<open>r\<close> of
  the old snapshot with that key whose pair is \<^verbatim>\<open>removed\<close>; \<open>compute_diff\<close> turns the pair
  into the change record of \<open>r\<close> with status \<^verbatim>\<open>removed\<close> and no field change, and
  \<open>assess_risk\<close> attaches to that record exactly one annotation: warning, rule
  \<^verbatim>\<open>resource_deleted\<close>, empty path. For the whole pipeline: when every path the diff
  library reports converts, \<open>diff_all\<close> returns on the pairs of the two snapshots, the
  record is among its results, and \<open>assess_risk\<close> on those results gives the record that
  single warning. Moreover every change record with status \<^verbatim>\<open>removed\<close>, whatever its kind
  and its field changes, gets that warning from \<open>assess_risk\<close>.
\<close>

theorem removed_resource_warned:
  "(k \<in> set (map key old_rs) \<and> k \<notin> set (map key new_rs) \<longrightarrow>
      (\<exists>r. r \<in> set old_rs \<and> key r = k \<and>
           \<lparr>old = Some r, new = None, status = ''removed''\<rparr> \<in> set (pair_resources old_rs new_rs) \<and>
           compute_diff fnm pf dd \<lparr>old = Some r, new = None, status = ''removed''\<rparr>
             show_all extra_ignores = Inr (Some (record_of r ''removed'' [])) \<and>
           cr_status (record_of r ''removed'' []) = ''removed'' \<and>
           changes (record_of r ''removed'' []) = [] \<and>
           assess_risk str_of [record_of r ''removed'' []] =
             [(record_of r ''removed'' [],
               [\<lparr>level = WARNING, rule = ''resource_deleted'',
                 message = kind r @ ''/'' @ name r @ '' will be removed'',
                 ann_path = ''''\<rparr>])] \<and>
           ((\<forall>a b. \<exists>fcs. extract_changes (dd a b) = Inr fcs) \<longrightarrow>
             (\<exists>recs. diff_all fnm pf dd (pair_resources old_rs new_rs) show_all extra_ignores
                       = Inr recs \<and>
                record_of r ''removed'' [] \<in> set recs \<and>
                (record_of r ''removed'' [],
                 [\<lparr>level = WARNING, rule = ''resource_deleted'',
                   message = kind r @ ''/'' @ name r @ '' will be removed'',
                   ann_path = ''''\<rparr>]) \<in> set (assess_risk str_of recs)))))
   \<and> (c \<in> set cs \<and> cr_status c = ''removed'' \<longrightarrow>
        (\<exists>anns. (c, anns) \<in> set (assess_risk str_of cs) \<and>
           \<lparr>level = WARNING, rule = ''resource_deleted'',
             message = cr_kind c @ ''/'' @ cr_name c @ '' will be removed'',
             ann_path = ''''\<rparr> \<in> set anns))"
proof (intro conjI impI)
  assume k: "k \<in> set (map key old_rs) \<and> k \<notin> set (map key new_rs)"
  then have "last_with_key k old_rs \<noteq> None" and n: "last_with_key k new_rs = None"
    by (simp_all add: last_with_key_None)
  then obtain r where r: "last_with_key k old_rs = Some r" by auto
  then have rk: "r \<in> set old_rs \<and> key r = k" by (rule last_with_key_Some)
  let ?p = "\<lparr>old = Some r, new = None, status = ''removed''\<rparr>"
  let ?rec = "record_of r ''removed'' []"
  let ?ann = "\<lparr>level = WARNING, rule = ''resource_deleted'',
                 message = kind r @ ''/'' @ name r @ '' will be removed'',
                 ann_path = ''''\<rparr>"
  have "k \<in> set (union_keys old_rs new_rs)"
    using k by (simp add: set_union_keys)
  then have mem: "?p \<in> set (pair_resources old_rs new_rs)"
    using k r n unfolding pair_resources_refines pair_resources_spec_def
    by (auto simp: image_iff intro!: bexI [of _ k])
  have cd: "compute_diff fnm pf dd ?p show_all extra_ignores = Inr (Some ?rec)"
    by (simp add: compute_diff_def)
  have ar: "assess_risk str_of [?rec] = [(?rec, [?ann])]"
    by (simp add: assess_risk_def RISK_RULES_def record_of_def check_immutable_fields_def
        check_service_type_change_def check_pvc_changes_def check_resource_deletion_def
        check_crd_changes_def check_rbac_escalation_def)
  have pipeline: "\<exists>recs. diff_all fnm pf dd (pair_resources old_rs new_rs) show_all extra_ignores
                       = Inr recs \<and> ?rec \<in> set recs \<and> (?rec, [?ann]) \<in> set (assess_risk str_of recs)"
    if paths: "\<forall>a b. \<exists>fcs. extract_changes (dd a b) = Inr fcs"
  proof -
    have "\<forall>p \<in> set (pair_resources old_rs new_rs).
            \<exists>x. compute_diff fnm pf dd p show_all extra_ignores = Inr x"
      using compute_diff_returns [OF paths] by blast
    then obtain recs where recs:
      "diff_all fnm pf dd (pair_resources old_rs new_rs) show_all extra_ignores = Inr recs"
      using diff_all_returns by blast
    then have m: "?rec \<in> set recs" using mem cd by (rule diff_all_member)
    then have "(?rec, [?ann]) \<in> set (assess_risk str_of recs)"
      using ar by (rule assess_risk_member)
    with recs m show ?thesis by blast
  qed
  show "\<exists>r. r \<in> set old_rs \<and> key r = k \<and>
           \<lparr>old = Some r, new = None, status = ''removed''\<rparr> \<in> set (pair_resources old_rs new_rs) \<and>
           compute_diff fnm pf dd \<lparr>old = Some r, new = None, status = ''removed''\<rparr>
             show_all extra_ignores = Inr (Some (record_of r ''removed'' [])) \<and>
           cr_status (record_of r ''removed'' []) = ''removed'' \<and>
           changes (record_of r ''removed'' []) = [] \<and>
           assess_risk str_of [record_of r ''removed'' []] =
             [(record_of r ''removed'' [],
               [\<lparr>level = WARNING, rule = ''resource_deleted'',
                 message = kind r @ ''/'' @ name r @ '' will be removed'',
                 ann_path = ''''\<rparr>])] \<and>
           ((\<forall>a b. \<exists>fcs. extract_changes (dd a b) = Inr fcs) \<longrightarrow>
             (\<exists>recs. diff_all fnm pf dd (pair_resources old_rs new_rs) show_all extra_ignores
                       = Inr recs \<and>
                record_of r ''removed'' [] \<in> set recs \<and>
                (record_of r ''removed'' [],
                 [\<lparr>level = WARNING, rule = ''resource_deleted'',
                   message = kind r @ ''/'' @ name r @ '' will be removed'',
                   ann_path = ''''\<rparr>]) \<in> set (assess_risk str_of recs)))"
  proof (intro exI [of _ r] conjI impI)
    show "r \<in> set old_rs" using rk by simp
    show "key r = k" using rk by simp
    show "?p \<in> set (pair_resources old_rs new_rs)" by (rule mem)
    show "compute_diff fnm pf dd ?p show_all extra_ignores = Inr (Some ?rec)" by (rule cd)
    show "cr_status ?rec = ''removed''" by (simp add: record_of_def)
    show "changes ?rec = []" by (simp add: record_of_def)
    show "assess_risk str_of [?rec] = [(?rec, [?ann])]" by (rule ar)
    assume "\<forall>a b. \<exists>fcs. extract_changes (dd a b) = Inr fcs"
    then show "\<exists>recs. diff_all fnm pf dd (pair_resources old_rs new_rs) show_all extra_ignores
                       = Inr recs \<and> ?rec \<in> set recs \<and> (?rec, [?ann]) \<in> set (assess_risk str_of recs)"
      by (rule pipeline)
  qed
next
  assume c: "c \<in> set cs \<and> cr_status c = ''removed''"
  let ?anns = "concat (map (\<lambda>r. r c) (RISK_RULES str_of))"
  have "(c, ?anns) \<in> set (assess_risk str_of cs)"
    using c by (auto simp: assess_risk_def)
  moreover have "\<lparr>level = WARNING, rule = ''resource_deleted'',
             message = cr_kind c @ ''/'' @ cr_name c @ '' will be removed'',
             ann_path = ''''\<rparr> \<in> set ?anns"
    using c by (simp add: RISK_RULES_def check_resource_deletion_def)
  ultimately show "\<exists>anns. (c, anns) \<in> set (assess_risk str_of cs) \<and>
           \<lparr>level = WARNING, rule = ''resource_deleted'',
             message = cr_kind c @ ''/'' @ cr_name c @ '' will be removed'',
             ann_path = ''''\<rparr> \<in> set anns"
    by blast
qed

lemma two_live_pairs:
  "pair_resources [cfg_live, gone_secret] [cfg_upgrade] =
     [\<lparr>old = Some cfg_live, new = Some cfg_upgrade, status = ''changed''\<rparr>,
      \<lparr>old = Some gone_secret, new = None, status = ''removed''\<rparr>]"
  by (simp add: cfg_live_def cfg_upgrade_def gone_secret_def pair_resources_def resource_map_def
      dict_fromkeys_def key_def pair_status_def dict_get_def both_nan_def)

lemma cfg_pair_not_reported:
  "compute_diff fnm pf dd
     \<lparr>old = Some cfg_live, new = Some cfg_upgrade, status = ''changed''\<rparr> False None = Inr None"
proof -
  have "is_semantically_equal pf
           (normalize_body (strip_noise fnm (body cfg_live) None))
           (normalize_body (strip_noise fnm (body cfg_upgrade) None))"
    by (simp add: cfg_live_def cfg_upgrade_def dict_get_def
        strip_noise_def NOISE_PATHS_def remove_path_def split_dot_path_def backslash_def
        normalize_body_def sort_known_lists_def UNORDERED_LIST_SORT_KEYS_def
        is_semantically_equal_def coercion_checks_def both_nan_def)
  then show ?thesis
    by (intro semantically_equal_pair_not_reported) simp_all
qed

theorem removed_resource_warned_witness:
  "(\<forall>a b. \<exists>fcs. extract_changes ((\<lambda>a b. empty_report) a b) = Inr fcs)
   \<and> key gone_secret \<in> set (map key [cfg_live, gone_secret])
   \<and> key gone_secret \<notin> set (map key [cfg_upgrade])
   \<and> diff_all (\<lambda>k p. False) (\<lambda>s. None) (\<lambda>a b. empty_report)
        (pair_resources [cfg_live, gone_secret] [cfg_upgrade]) False None
       = Inr [record_of gone_secret ''removed'' []]
   \<and> assess_risk (\<lambda>v. '''') [record_of gone_secret ''removed'' []] =
        [(record_of gone_secret ''removed'' [],
          [\<lparr>level = WARNING, rule = ''resource_deleted'',
            message = ''Secret/tok will be removed'', ann_path = ''''\<rparr>])]"
proof -
  have paths: "\<forall>a b. \<exists>fcs. extract_changes ((\<lambda>a b. empty_report) a b) = Inr fcs"
    by (simp add: extract_changes_def report_entries_def empty_report_def)
  have h: "key gone_secret \<in> set (map key [cfg_live, gone_secret]) \<and>
           key gone_secret \<notin> set (map key [cfg_upgrade])"
    by (simp add: key_def gone_secret_def cfg_upgrade_def)
  have keys: "key cfg_live \<noteq> key gone_secret"
    by (simp add: key_def gone_secret_def cfg_live_def)
  have da: "diff_all (\<lambda>k p. False) (\<lambda>s. None) (\<lambda>a b. empty_report)
        (pair_resources [cfg_live, gone_secret] [cfg_upgrade]) False None
       = Inr [record_of gone_secret ''removed'' []]"
  proof -
    have "compute_diff (\<lambda>k p. False) (\<lambda>s. None) (\<lambda>a b. empty_report)
            \<lparr>old = Some gone_secret, new = None, status = ''removed''\<rparr> False None
          = Inr (Some (record_of gone_secret ''removed'' []))"
      by (simp add: compute_diff_def)
    then show ?thesis
      by (simp add: two_live_pairs cfg_pair_not_reported)
  qed
  from mp [OF conjunct1 [OF removed_resource_warned
        [of "key gone_secret" "[cfg_live, gone_secret]" "[cfg_upgrade]"
            "\<lambda>k p. False" "\<lambda>s. None" "\<lambda>a b. empty_report" False None "\<lambda>v. ''''"]] h]
  obtain r where r: "r \<in> set [cfg_live, gone_secret]" and rk: "key r = key gone_secret"
    and ar: "assess_risk (\<lambda>v. '''') [record_of r ''removed'' []] =
             [(record_of r ''removed'' [],
               [\<lparr>level = WARNING, rule = ''resource_deleted'',
                 message = kind r @ ''/'' @ name r @ '' will be removed'',
                 ann_path = ''''\<rparr>])]"
    by blast
  from r rk keys have "r = gone_secret" by auto
  with ar have "assess_risk (\<lambda>v. '''') [record_of gone_secret ''removed'' []] =
        [(record_of gone_secret ''removed'' [],
          [\<lparr>level = WARNING, rule = ''resource_deleted'',
            message = ''Secret/tok will be removed'', ann_path = ''''\<rparr>])]"
    by (simp add: gone_secret_def)
  with paths h da show ?thesis by blast
qed

section \<open>Properties of the path conversion\<close>

lemma nat_digits_are_digits: "c \<in> set (nat_digits n) \<Longrightarrow> is_digit c"
proof (induction n rule: nat_digits.induct)
  case (1 n)
  show ?case
  proof (cases "n < 10")
    case True
    with "1.prems" have "c = char_of (48 + n)"
      by (simp add: nat_digits.simps [of n])
    with True show ?thesis by (simp add: is_digit_def)
  next
    case False
    with "1.prems" consider "c \<in> set (nat_digits (n div 10))" | "c = char_of (48 + n mod 10)"
      by (auto simp: nat_digits.simps [of n])
    then show ?thesis
    proof cases
      case 1
      with False "1.IH" show ?thesis by simp
    next
      case 2
      have "n mod 10 < 10" by simp
      with 2 show ?thesis by (simp add: is_digit_def)
    qed
  qed
qed

lemma nat_digits_not_empty: "nat_digits n \<noteq> []"
  by (subst nat_digits.simps) simp

lemma digit_not_bracket: "is_digit c \<Longrightarrow> c \<noteq> CHR '']''"
  by (auto simp: is_digit_def)

lemma digit_not_quote: "is_digit c \<Longrightarrow> \<not> is_quote c"
  by (auto simp: is_digit_def is_quote_def)

lemma remove_first_root: "remove_first ''root'' (''root'' @ s) = s"
  by (simp add: startswith_def)

lemma takeWhile_until:
  "x \<notin> set xs \<Longrightarrow> takeWhile (\<lambda>c. c \<noteq> x) (xs @ x # ys) = xs"
  by (induction xs) auto

lemma dropWhile_until:
  "x \<notin> set xs \<Longrightarrow> dropWhile (\<lambda>c. c \<noteq> x) (xs @ x # ys) = x # ys"
  by (induction xs) auto

lemma dropWhile_hd: "xs \<noteq> [] \<Longrightarrow> \<not> P (hd xs) \<Longrightarrow> dropWhile P xs = xs"
  by (cases xs) auto

lemma strip_quotes_quoted:
  assumes "plain_key k"
  shows "strip_quotes (CHR 0x27 # k @ [CHR 0x27]) = k"
proof -
  from assms have ne: "k \<noteq> []" and h: "\<not> is_quote (hd k)" and l: "\<not> is_quote (last k)"
    by (simp_all add: plain_key_def)
  have q: "is_quote (CHR 0x27)" by (simp add: is_quote_def)
  have "dropWhile is_quote (CHR 0x27 # k @ [CHR 0x27]) = k @ [CHR 0x27]"
    using q ne h by (cases k) auto
  moreover have "dropWhile is_quote (rev (k @ [CHR 0x27])) = rev k"
    using q ne l by (simp add: dropWhile_hd hd_rev)
  ultimately show ?thesis by (simp add: strip_quotes_def)
qed

lemma path_loop_bracket:
  assumes "CHR '']'' \<notin> set inner"
  shows "path_loop (CHR ''['' # inner @ CHR '']'' # rest) res =
         (if startswith inner [CHR 0x27] \<or> startswith inner [CHR 0x22]
          then path_loop rest ((if res \<noteq> [] then res @ ''.'' else res) @ strip_quotes inner)
          else path_loop rest (res @ ''['' @ inner @ '']''))"
proof -
  have tw: "takeWhile (\<lambda>x. x \<noteq> CHR '']'') (inner @ CHR '']'' # rest) = inner"
    using assms by (rule takeWhile_until)
  have dw: "dropWhile (\<lambda>x. x \<noteq> CHR '']'') (inner @ CHR '']'' # rest) = CHR '']'' # rest"
    using assms by (rule dropWhile_until)
  show ?thesis
    by (subst path_loop.simps) (simp add: tw dw Let_def)
qed

lemma path_loop_key:
  assumes "plain_key k"
  shows "path_loop (segment_text (Key k) @ rest) res =
         path_loop rest ((if res \<noteq> [] then res @ ''.'' else res) @ k)"
proof -
  let ?inner = "CHR 0x27 # k @ [CHR 0x27]"
  from assms have nb: "CHR '']'' \<notin> set ?inner"
    by (simp add: plain_key_def)
  have "segment_text (Key k) @ rest = CHR ''['' # ?inner @ CHR '']'' # rest"
    by simp
  then have "path_loop (segment_text (Key k) @ rest) res =
             path_loop (CHR ''['' # ?inner @ CHR '']'' # rest) res"
    by (rule arg_cong)
  also have "\<dots> = path_loop rest ((if res \<noteq> [] then res @ ''.'' else res) @ strip_quotes ?inner)"
    by (subst path_loop_bracket [OF nb]) (simp add: startswith_def)
  finally show ?thesis
    by (simp only: strip_quotes_quoted [OF assms])
qed

lemma path_loop_index:
  "path_loop (segment_text (Idx i) @ rest) res = path_loop rest (res @ ''['' @ nat_digits i @ '']'')"
proof -
  have nb: "CHR '']'' \<notin> set (nat_digits i)"
    using nat_digits_are_digits digit_not_bracket by blast
  obtain d ds where d: "nat_digits i = d # ds"
    using nat_digits_not_empty [of i] by (cases "nat_digits i") auto
  then have "is_digit d" using nat_digits_are_digits [of d i] by simp
  then have nq: "d \<noteq> CHR 0x27 \<and> d \<noteq> CHR 0x22"
    using digit_not_quote [of d] by (auto simp: is_quote_def)
  have "segment_text (Idx i) @ rest = CHR ''['' # nat_digits i @ CHR '']'' # rest"
    by simp
  then have "path_loop (segment_text (Idx i) @ rest) res =
             path_loop (CHR ''['' # nat_digits i @ CHR '']'' # rest) res"
    by (rule arg_cong)
  also have "\<dots> = path_loop rest (res @ ''['' @ nat_digits i @ '']'')"
    by (subst path_loop_bracket [OF nb]) (simp add: startswith_def d nq)
  finally show ?thesis .
qed

lemma path_loop_segments:
  "list_all plain_segment segs \<Longrightarrow>
   path_loop (concat (map segment_text segs)) res =
     Inr (if res = [] then dot_path segs else res @ concat (map (dot_segment False) segs))"
proof (induction segs arbitrary: res)
  case Nil
  then show ?case by simp
next
  case (Cons s ss)
  then have rest: "list_all plain_segment ss" by simp
  show ?case
  proof (cases s)
    case (Key k)
    with Cons.prems have pk: "plain_key k" by simp
    then have ne: "k \<noteq> []" by (simp add: plain_key_def)
    have "path_loop (concat (map segment_text (s # ss))) res =
          path_loop (concat (map segment_text ss)) ((if res \<noteq> [] then res @ ''.'' else res) @ k)"
      using path_loop_key [OF pk] Key by simp
    also have "\<dots> = Inr (((if res \<noteq> [] then res @ ''.'' else res) @ k) @
                         concat (map (dot_segment False) ss))"
      using Cons.IH [OF rest] ne by simp
    finally show ?thesis using Key by simp
  next
    case (Idx i)
    have "path_loop (concat (map segment_text (s # ss))) res =
          path_loop (concat (map segment_text ss)) (res @ ''['' @ nat_digits i @ '']'')"
      using path_loop_index Idx by simp
    also have "\<dots> = Inr ((res @ ''['' @ nat_digits i @ '']'') @
                         concat (map (dot_segment False) ss))"
      using Cons.IH [OF rest] by simp
    finally show ?thesis using Idx by simp
  qed
qed

text \<open>
  For paths whose keys are all plain, the conversion gives the path grammar of the
  specification.
\<close>

lemma deepdiff_path_to_dot_plain:
  "list_all plain_segment segs \<Longrightarrow> deepdiff_path_to_dot (dd_path segs) = Inr (dot_path segs)"
  unfolding deepdiff_path_to_dot_def dd_path_def remove_first_root
  by (simp add: path_loop_segments)

lemma nat_digits_0: "nat_digits 0 = ''0''"
  by code_simp

lemma containers_image_path:
  "deepdiff_path_to_dot
     (dd_path [Key ''spec'', Key ''template'', Key ''spec'', Key ''containers'', Idx 0, Key ''image''])
   = Inr ''spec.template.spec.containers[0].image''"
  by (subst deepdiff_path_to_dot_plain) (simp_all add: plain_key_def is_quote_def nat_digits_0)

text \<open>
  Claim C8, at the path of the top-level key \<^verbatim>\<open>a]b\<close>, which DeepDiff writes
  \<^verbatim>\<open>root['a]b']\<close>: the specification's grammar renders it \<^verbatim>\<open>a]b\<close>; the conversion stops
  the key at its closing bracket and returns \<^verbatim>\<open>a\<close>.
\<close>

theorem bracket_key_path_truncated:
  "dd_path [Key ''a]b''] = ''root['' @ [CHR 0x27] @ ''a]b'' @ [CHR 0x27] @ '']''
   \<and> dot_path [Key ''a]b''] = ''a]b''
   \<and> deepdiff_path_to_dot (dd_path [Key ''a]b'']) = Inr ''a''"
  by (simp add: dd_path_def deepdiff_path_to_dot_def startswith_def strip_quotes_def is_quote_def)

section \<open>Properties of the parser\<close>













end
